theory Spec2Isabelle
  imports Main "HOL-Library.Word" "HOL-Library.AList"
begin

section \<open>JavaScript values\<close>

text \<open>
  A JavaScript string is a sequence of 16-bit code units; \<open>length\<close>, \<open>substring\<close>,
  \<open>trim\<close> and \<open>includes\<close> all count code units. ASCII literals of the scripts are
  written with \<open>asc\<close>; the Chinese literals are given by their code units.
\<close>

type_synonym utf16 = "16 word"
type_synonym jsstring = "utf16 list"

definition asc :: "string \<Rightarrow> jsstring" where
  "asc s = map of_char s"

text \<open>
  What \<open>JSON.parse\<close> and axios hand to the scripts. The scripts never compute with a
  number of a response or of the cache: they test its type and its truthiness and print
  it. So a number is given by its rendering \<open>String(n)\<close>, which determines it up to the
  sign of zero; \<open>JSON.parse\<close> yields no \<open>NaN\<close>, so the falsy numbers are those that
  print as \<open>0\<close>. \<open>undefined\<close> is \<open>None\<close> of \<open>json option\<close>. An object is the list
  of its own properties in insertion order; a key has the value of its first pair.
\<close>

datatype json =
    JNull
  | JBool bool
  | JNum jsstring
  | JStr jsstring
  | JArr "json list"
  | JObj "(jsstring \<times> json) list"

type_synonym obj = "(jsstring \<times> json) list"

fun truthy :: "json \<Rightarrow> bool" where
  "truthy JNull = False"
| "truthy (JBool b) = b"
| "truthy (JNum n) = (n \<noteq> asc ''0'')"
| "truthy (JStr s) = (s \<noteq> [])"
| "truthy (JArr xs) = True"
| "truthy (JObj kvs) = True"

text \<open>\<open>x || d\<close>\<close>

fun or_default :: "json option \<Rightarrow> json \<Rightarrow> json" where
  "or_default None d = d"
| "or_default (Some v) d = (if truthy v then v else d)"

text \<open>\<open>typeof x === 'number'\<close>\<close>

fun is_number :: "json option \<Rightarrow> bool" where
  "is_number (Some (JNum n)) = True"
| "is_number _ = False"

subsection \<open>Counts and statuses in template strings\<close>

text \<open>
  The decimal digits of an HTTP status, of a count of accounts, of an array index or of
  a time stamp in milliseconds: all far below \<open>2^53\<close>, where JavaScript prints every
  digit.
\<close>

definition digit :: "nat \<Rightarrow> utf16" where
  "digit d = of_nat (48 + d)"

fun show_nat :: "nat \<Rightarrow> jsstring" where
  "show_nat n = (if n < 10 then [digit n] else show_nat (n div 10) @ [digit (n mod 10)])"

declare show_nat.simps [simp del]

subsection \<open>Own properties\<close>

text \<open>
  \<open>Object.keys(v)\<close> lists the own enumerable properties, each key once: the members of
  an object, the indices of an array or of a string; a number or a boolean has none, and
  \<open>null\<close> makes \<open>Object.keys\<close> throw. \<open>get_prop v k\<close> is the own property of \<open>v\<close>
  under \<open>k\<close>. It is the whole of a read \<open>v.name\<close> for the names the scripts read from
  a response or from a cache entry (\<open>data\<close>, \<open>message\<close>, \<open>sign_status\<close>,
  \<open>sign_count\<close>, \<open>get_traffic\<close>, \<open>total_traffic\<close>, \<open>date\<close>), none of which the
  standard prototypes define, and of the read \<open>cache[username]\<close> of \<open>readCache\<close>,
  whose \<open>username\<close> is an own key. Every read on a possibly-\<open>null\<close> value is guarded
  by a truthiness test. \<open>JSON.parse\<close> makes \<open>__proto__\<close> an own property like any other.
\<close>

text \<open>What is thrown, with \<open>error.message\<close> as Node words it.\<close>

datatype exn = TypeError jsstring

fun own_props :: "json \<Rightarrow> obj" where
  "own_props (JObj kvs) = kvs"
| "own_props (JArr xs) = zip (map show_nat [0..<length xs]) xs"
| "own_props (JStr s) = zip (map show_nat [0..<length s]) (map (\<lambda>c. JStr [c]) s)"
| "own_props _ = []"

fun object_keys :: "json \<Rightarrow> exn + jsstring list" where
  "object_keys JNull = Inl (TypeError (asc ''Cannot convert undefined or null to object''))"
| "object_keys v = Inr (remdups (map fst (own_props v)))"

definition get_prop :: "json \<Rightarrow> jsstring \<Rightarrow> json option" where
  "get_prop v k = map_of (own_props v) k"

subsection \<open>Values in template strings\<close>

text \<open>
  \<open>`${v}`\<close> is \<open>ToString(v)\<close>. A string is itself and a number its rendering. An
  array joins its elements with commas, \<open>null\<close> elements printing as nothing. An object
  is asked for its \<open>toString\<close> and then its \<open>valueOf\<close>: with no own \<open>toString\<close> the
  inherited one prints \<open>[object Object]\<close>; with an own one, which in a parsed value is
  never a function, neither method yields a primitive and \<open>TypeError\<close> is thrown.
\<close>

definition cannot_convert :: exn where
  "cannot_convert = TypeError (asc ''Cannot convert object to primitive value'')"

fun to_string :: "json \<Rightarrow> exn + jsstring" and join_elems :: "json list \<Rightarrow> exn + jsstring" where
  "to_string JNull = Inr (asc ''null'')"
| "to_string (JBool b) = Inr (if b then asc ''true'' else asc ''false'')"
| "to_string (JNum n) = Inr n"
| "to_string (JStr s) = Inr s"
| "to_string (JArr xs) = join_elems xs"
| "to_string (JObj kvs) =
     (if map_of kvs (asc ''toString'') = None then Inr (asc ''[object Object]'')
      else Inl cannot_convert)"
| "join_elems [] = Inr []"
| "join_elems (x # xs) =
     (case (case x of JNull \<Rightarrow> Inr [] | _ \<Rightarrow> to_string x) of
        Inl e \<Rightarrow> Inl e
      | Inr s \<Rightarrow>
          if xs = [] then Inr s
          else (case join_elems xs of Inl e \<Rightarrow> Inl e | Inr t \<Rightarrow> Inr (s @ asc '','' @ t)))"

text \<open>
  The pieces of a template string, evaluated from left to right: the first one that
  throws ends the evaluation.
\<close>

fun template :: "(exn + jsstring) list \<Rightarrow> exn + jsstring" where
  "template [] = Inr []"
| "template (Inl e # ps) = Inl e"
| "template (Inr s # ps) = (case template ps of Inl e \<Rightarrow> Inl e | Inr t \<Rightarrow> Inr (s @ t))"

subsection \<open>Objects the scripts build and assign to\<close>

text \<open>
  \<open>readCache\<close> builds its result in a fresh object and \<open>saveToCacheIfFirstSign\<close>
  assigns to it, under keys that are account names. Such an object has its own
  properties and a prototype: \<open>Object.prototype\<close> at first.

  An assignment \<open>o[k] = v\<close> sets or adds the own property \<open>k\<close>, except under the key
  \<open>__proto__\<close> when \<open>o\<close> has no such own property and inherits none from a parsed
  value: then the setter of \<open>Object.prototype\<close> runs. It makes an object or array
  \<open>v\<close> the prototype of \<open>o\<close>, makes the prototype \<open>null\<close> for \<open>v = null\<close>, ignores
  any other \<open>v\<close>, and adds no own property.
\<close>

datatype proto = ObjectPrototype | NullPrototype | InheritFrom json

record jsobj =
  own :: obj
  prototype :: proto

definition empty_obj :: jsobj where
  "empty_obj = \<lparr>own = [], prototype = ObjectPrototype\<rparr>"

definition proto_key :: jsstring where
  "proto_key = asc ''__proto__''"

definition set_prototype :: "jsobj \<Rightarrow> json \<Rightarrow> jsobj" where
  "set_prototype ob v =
     (case v of
        JObj kvs \<Rightarrow> ob\<lparr>prototype := InheritFrom v\<rparr>
      | JArr xs \<Rightarrow> ob\<lparr>prototype := InheritFrom v\<rparr>
      | JNull \<Rightarrow> ob\<lparr>prototype := NullPrototype\<rparr>
      | _ \<Rightarrow> ob)"

definition obj_set :: "jsobj \<Rightarrow> jsstring \<Rightarrow> json \<Rightarrow> jsobj" where
  "obj_set ob k v =
     (if k \<noteq> proto_key \<or> map_of (own ob) k \<noteq> None
      then ob\<lparr>own := AList.update k v (own ob)\<rparr>
      else (case prototype ob of
              ObjectPrototype \<Rightarrow> set_prototype ob v
            | NullPrototype \<Rightarrow> ob\<lparr>own := AList.update k v (own ob)\<rparr>
            | InheritFrom w \<Rightarrow>
                if get_prop w k \<noteq> None then ob\<lparr>own := AList.update k v (own ob)\<rparr>
                else set_prototype ob v))"

text \<open>
  A read \<open>o[k]\<close> looks among the own properties, then among those of the prototype
  when it is a parsed value; failing both, \<open>__proto__\<close> reads that prototype through
  the getter of \<open>Object.prototype\<close>. \<open>None\<close> is \<open>undefined\<close> or a member of the
  standard prototypes (a function, \<open>Object.prototype\<close> itself, the length of an
  array): a value without a \<open>date\<close>, which is all \<open>getFromCache\<close> asks of it.
\<close>

definition obj_get :: "jsobj \<Rightarrow> jsstring \<Rightarrow> json option" where
  "obj_get ob k =
     (case map_of (own ob) k of
        Some v \<Rightarrow> Some v
      | None \<Rightarrow>
          (case prototype ob of
             InheritFrom w \<Rightarrow>
               (case get_prop w k of
                  Some v \<Rightarrow> Some v
                | None \<Rightarrow> if k = proto_key then Some w else None)
           | _ \<Rightarrow> None))"

subsection \<open>Messages of the sign-in script\<close>

text \<open>
  The literals that say: sign-in succeeded, already signed in today, sign-in failed,
  account does not exist.
\<close>

definition msg_sign_ok :: jsstring where
  "msg_sign_ok = [0x7B7E, 0x5230, 0x6210, 0x529F]"

definition msg_already :: jsstring where
  "msg_already = [0x4ECA, 0x65E5, 0x5DF2, 0x7B7E, 0x5230]"

definition msg_sign_failed :: jsstring where
  "msg_sign_failed = [0x7B7E, 0x5230, 0x5931, 0x8D25]"

definition msg_user_not_found :: jsstring where
  "msg_user_not_found = [0x7528, 0x6237, 0x4E0D, 0x5B58, 0x5728]"

section \<open>The day cache (ybt\_sign.js, cache variant)\<close>

text \<open>
  The cache file as \<open>readCache\<close> meets it: absent, present but failing in
  \<open>fs.readFileSync\<close> or \<open>JSON.parse\<close>, or holding the text of a JSON value, given
  by the value that \<open>JSON.parse\<close> makes of it. \<open>fs.writeFileSync\<close> may throw;
  \<open>writable\<close> says whether it succeeds.
\<close>

datatype file_content = Missing | Unreadable | Parsed json

record fs =
  cache_file :: file_content
  writable :: bool

text \<open>
  What one call reads from outside: \<open>getTodayString()\<close>, \<open>new Date().toISOString()\<close>
  and the library function \<open>JSON.stringify\<close>. The calendar day is the same at every
  \<open>getTodayString()\<close> of one call: a call that runs across midnight is not modelled.
\<close>

record env =
  today :: jsstring
  nowISO :: jsstring
  json_stringify :: "json \<Rightarrow> jsstring"

text \<open>
  What \<open>JSON.parse\<close> reads back from the text that \<open>JSON.stringify\<close> writes for a
  value. \<open>JSON.parse\<close> reads a number literal beyond the range of a double as
  \<open>Infinity\<close> or \<open>-Infinity\<close>, and \<open>JSON.stringify\<close> writes these two as \<open>null\<close>;
  everything else is read back as it was.
\<close>

fun written :: "json \<Rightarrow> json" where
  "written (JNum n) = (if n = asc ''Infinity'' \<or> n = asc ''-Infinity'' then JNull else JNum n)"
| "written (JArr xs) = JArr (map written xs)"
| "written (JObj kvs) = JObj (map (\<lambda>(k, v). (k, written v)) kvs)"
| "written v = v"

text \<open>
  \<open>writeCache\<close>: \<open>JSON.stringify\<close> writes the own properties of the object it is
  given; a failing write is logged and leaves the file as it was.
\<close>

definition writeCache :: "jsobj \<Rightarrow> fs \<Rightarrow> fs" where
  "writeCache cache s =
     (if writable s then s\<lparr>cache_file := Parsed (written (JObj (own cache)))\<rparr> else s)"

text \<open>
  The body of the \<open>forEach\<close> in \<open>readCache\<close>:
  \<open>if (cache[username] && cache[username].date === today) cleanedCache[username] = cache[username]\<close>.
\<close>

definition keep_today :: "jsstring \<Rightarrow> json \<Rightarrow> jsstring \<Rightarrow> jsobj \<Rightarrow> jsobj" where
  "keep_today tod cache username cleanedCache =
     (case get_prop cache username of
        None \<Rightarrow> cleanedCache
      | Some e \<Rightarrow>
          if truthy e \<and> get_prop e (asc ''date'') = Some (JStr tod)
          then obj_set cleanedCache username e
          else cleanedCache)"

definition readCache :: "env \<Rightarrow> fs \<Rightarrow> jsobj \<times> fs" where
  "readCache E s =
     (case cache_file s of
        Missing \<Rightarrow> (empty_obj, s)
      | Unreadable \<Rightarrow> (empty_obj, s)
      | Parsed cache \<Rightarrow>
          (case object_keys cache of
             Inl _ \<Rightarrow> (empty_obj, s)
           | Inr keys \<Rightarrow>
               let cleanedCache = fold (keep_today (today E) cache) keys empty_obj
               in if length (map fst (own cleanedCache)) \<noteq> length keys
                  then (cleanedCache, writeCache cleanedCache s)
                  else (cleanedCache, s)))"

text \<open>\<open>saveToCacheIfFirstSign\<close>\<close>

definition cache_entry :: "env \<Rightarrow> json \<Rightarrow> json" where
  "cache_entry E signData = JObj
     [(asc ''date'', JStr (today E)),
      (asc ''sign_count'', or_default (get_prop signData (asc ''sign_count'')) (JNum (asc ''0''))),
      (asc ''get_traffic'', or_default (get_prop signData (asc ''get_traffic'')) (JNum (asc ''0''))),
      (asc ''total_traffic'', or_default (get_prop signData (asc ''total_traffic'')) (JNum (asc ''0''))),
      (asc ''message'',
         or_default (get_prop signData (asc ''message'')) (JStr msg_sign_ok)),
      (asc ''timestamp'', JStr (nowISO E))]"

definition saveToCacheIfFirstSign :: "env \<Rightarrow> jsstring \<Rightarrow> json \<Rightarrow> bool \<Rightarrow> fs \<Rightarrow> fs" where
  "saveToCacheIfFirstSign E username signData isFirstSign s =
     (if \<not> isFirstSign \<or> \<not> truthy signData then s
      else let (cache, s1) = readCache E s
           in writeCache (obj_set cache username (cache_entry E signData)) s1)"

text \<open>\<open>getFromCache\<close>: \<open>None\<close> is the \<open>null\<close> it returns.\<close>

definition getFromCache :: "env \<Rightarrow> jsstring \<Rightarrow> fs \<Rightarrow> json option \<times> fs" where
  "getFromCache E username s =
     (let (cache, s1) = readCache E s
      in (case obj_get cache username of
            None \<Rightarrow> (None, s1)
          | Some e \<Rightarrow>
              if truthy e \<and> get_prop e (asc ''date'') = Some (JStr (today E))
              then (Some e, s1) else (None, s1)))"

section \<open>Classifying a sign-in result (ybt\_sign.js, cache variant)\<close>

text \<open>
  What \<open>performSign\<close> returns: \<open>{success: true, status, data}\<close> or
  \<open>{success: false, error, code}\<close>, where \<open>code\<close> may be \<open>undefined\<close>.
\<close>

datatype sign_result =
    Answered nat json
  | Failed jsstring "jsstring option"

datatype data_source = Api | Cache | ApiLimited | Error

record outcome =
  username :: jsstring
  success :: bool
  message :: jsstring
  details :: jsstring
  isFirstSign :: bool
  dataSource :: data_source

definition lbl_sign_count :: jsstring where
  "lbl_sign_count = [0x0A, 0x7D2F, 0x8BA1, 0x7B7E, 0x5230, 0x3A, 0x20]"

definition lbl_days :: jsstring where
  "lbl_days = [0x20, 0x5929]"

definition lbl_get_traffic :: jsstring where
  "lbl_get_traffic = [0x0A, 0x83B7, 0x5F97, 0x6D41, 0x91CF, 0x3A, 0x20]"

definition lbl_total_traffic :: jsstring where
  "lbl_total_traffic = [0x0A, 0x603B, 0x6D41, 0x91CF, 0x3A, 0x20]"

definition note_no_traffic :: jsstring where
  "note_no_traffic =
     [0x0A, 0x28, 0x6D41, 0x91CF, 0x4FE1, 0x606F, 0x9700, 0x9996, 0x6B21, 0x7B7E, 0x5230,
      0x83B7, 0x53D6, 0x29]"

text \<open>
  The labels of the details lines, each with the line break that precedes it:
  cumulative sign-ins (closed by the unit of days), traffic granted and total traffic
  (both closed by \<open>MB\<close>), and the note that traffic data needs the first sign-in.
  Then the four-line details of a first sign-in and of a cache hit: the message or its
  default, the cumulative count, the traffic granted, the total traffic.
\<close>

definition full_details :: "json \<Rightarrow> jsstring \<Rightarrow> exn + jsstring" where
  "full_details d dflt =
     template
       [to_string (or_default (get_prop d (asc ''message'')) (JStr dflt)),
        Inr lbl_sign_count,
        to_string (or_default (get_prop d (asc ''sign_count'')) (JNum (asc ''0''))),
        Inr lbl_days,
        Inr lbl_get_traffic,
        to_string (or_default (get_prop d (asc ''get_traffic'')) (JNum (asc ''0''))),
        Inr (asc '' MB''),
        Inr lbl_total_traffic,
        to_string (or_default (get_prop d (asc ''total_traffic'')) (JNum (asc ''0''))),
        Inr (asc '' MB'')]"

text \<open>
  The three-line details without traffic data: the message or its default, the
  cumulative count, the note.
\<close>

definition limited_details :: "json \<Rightarrow> exn + jsstring" where
  "limited_details d =
     template
       [to_string (or_default (get_prop d (asc ''message'')) (JStr msg_already)),
        Inr lbl_sign_count,
        to_string (or_default (get_prop d (asc ''sign_count'')) (JNum (asc ''0''))),
        Inr lbl_days,
        Inr note_no_traffic]"

text \<open>\<open>data && data.data\<close>, when it is truthy.\<close>

definition data_data :: "json \<Rightarrow> json option" where
  "data_data data =
     (if truthy data then
        (case get_prop data (asc ''data'') of
           None \<Rightarrow> None
         | Some signData \<Rightarrow> if truthy signData then Some signData else None)
      else None)"

text \<open>
  The rest of the first test, on \<open>signData = data.data\<close>:
  \<open>status === 200 && signData.sign_status === true &&
   typeof signData.get_traffic === 'number' && typeof signData.total_traffic === 'number'\<close>.
\<close>

definition first_sign_test :: "nat \<Rightarrow> json \<Rightarrow> bool" where
  "first_sign_test status signData =
     (status = 200 \<and>
      get_prop signData (asc ''sign_status'') = Some (JBool True) \<and>
      is_number (get_prop signData (asc ''get_traffic'')) \<and>
      is_number (get_prop signData (asc ''total_traffic'')))"

text \<open>The tail of \<open>processSignResult\<close>: account not found, or any other failure.\<close>

definition not_found_or_error :: "env \<Rightarrow> jsstring \<Rightarrow> nat \<Rightarrow> json \<Rightarrow> outcome" where
  "not_found_or_error E u status data =
     (if truthy data \<and> get_prop data (asc ''message'') = Some (JStr msg_user_not_found)
      then \<lparr>username = u, success = False, message = msg_user_not_found,
            details = [0x8BF7, 0x68C0, 0x67E5, 0x7528, 0x6237, 0x540D, 0x662F, 0x5426, 0x6B63, 0x786E],
            isFirstSign = False, dataSource = Error\<rparr>
      else \<lparr>username = u, success = False, message = msg_sign_failed,
            details = [0x48, 0x54, 0x54, 0x50, 0x72B6, 0x6001, 0x3A, 0x20] @ show_nat status @
                      [0x2C, 0x20, 0x54CD, 0x5E94, 0x3A, 0x20] @ json_stringify E data,
            isFirstSign = False, dataSource = Error\<rparr>)"

text \<open>
  \<open>return {username, success: true, message, details: `...`, isFirstSign, dataSource}\<close>:
  the object is returned unless its template string throws.
\<close>

definition success_outcome ::
  "jsstring \<Rightarrow> jsstring \<Rightarrow> exn + jsstring \<Rightarrow> bool \<Rightarrow> data_source \<Rightarrow> exn + outcome" where
  "success_outcome u msg det first src =
     (case det of
        Inl e \<Rightarrow> Inl e
      | Inr d \<Rightarrow> Inr \<lparr>username = u, success = True, message = msg, details = d,
                       isFirstSign = first, dataSource = src\<rparr>)"

text \<open>
  \<open>processSignResult\<close>: the outcome it returns or the error it throws, and the cache
  file it leaves. On a first sign-in the cache is written before the outcome is built.
\<close>

fun processSignResult ::
  "env \<Rightarrow> jsstring \<Rightarrow> sign_result \<Rightarrow> fs \<Rightarrow> (exn + outcome) \<times> fs" where
  "processSignResult E u (Failed error code) s =
     (Inr \<lparr>username = u, success = False,
           message = [0x7B7E, 0x5230, 0x5931, 0x8D25, 0x3A, 0x20] @ error,
           details = [0x9519, 0x8BEF, 0x4EE3, 0x7801, 0x3A, 0x20] @
                     (case code of None \<Rightarrow> asc ''UNKNOWN''
                      | Some c \<Rightarrow> if c \<noteq> [] then c else asc ''UNKNOWN''),
           isFirstSign = False, dataSource = Error\<rparr>, s)"
| "processSignResult E u (Answered status data) s =
     (case data_data data of
        None \<Rightarrow> (Inr (not_found_or_error E u status data), s)
      | Some signData \<Rightarrow>
          if first_sign_test status signData then
            (let s1 = saveToCacheIfFirstSign E u signData True s
             in (success_outcome u msg_sign_ok (full_details signData msg_sign_ok) True Api, s1))
          else if get_prop signData (asc ''sign_status'') = Some (JBool True) then
            (case getFromCache E u s of
               (Some cachedData, s1) \<Rightarrow>
                 (success_outcome u msg_already (full_details cachedData msg_already) False Cache,
                  s1)
             | (None, s1) \<Rightarrow>
                 (success_outcome u msg_already (limited_details signData) False ApiLimited, s1))
          else (Inr (not_found_or_error E u status data), s))"

section \<open>The signing request and its retries (ybt\_sign.js, cache variant)\<close>

text \<open>\<open>String.prototype.includes\<close>\<close>

fun starts_with :: "'a list \<Rightarrow> 'a list \<Rightarrow> bool" where
  "starts_with xs [] = True"
| "starts_with [] (y # ys) = False"
| "starts_with (x # xs) (y # ys) = (x = y \<and> starts_with xs ys)"

fun includes_str :: "'a list \<Rightarrow> 'a list \<Rightarrow> bool" where
  "includes_str [] sub = (sub = [])"
| "includes_str (x # xs) sub = (starts_with (x # xs) sub \<or> includes_str xs sub)"

definition MAX_RETRY :: nat where
  "MAX_RETRY = 3"

definition RETRY_DELAY :: nat where
  "RETRY_DELAY = 2000"

text \<open>
  What one run of the \<open>try\<close> block of \<open>performSign\<close> meets: a response with its HTTP
  status and parsed body, or an error thrown before any response (\<open>error.message\<close>,
  \<open>error.code\<close>). The network is an oracle from the account and the number of requests
  issued before to that outcome. A response whose status \<open>validateStatus\<close> rejects makes
  axios throw an error of its own, \<open>status_error\<close>.
\<close>

datatype attempt =
    Response nat json
  | Thrown jsstring "jsstring option"

record net =
  attempt_of :: "jsstring \<Rightarrow> nat \<Rightarrow> attempt"
  status_error :: "nat \<Rightarrow> jsstring \<times> jsstring option"

text \<open>What the run does that the outside sees: requests and \<open>delay(ms)\<close>.\<close>

datatype event = Request jsstring | Sleep nat

fun is_request :: "event \<Rightarrow> bool" where
  "is_request (Request u) = True"
| "is_request (Sleep ms) = False"

definition validateStatus :: "nat \<Rightarrow> bool" where
  "validateStatus status = (status = 200 \<or> status = 400)"

text \<open>The \<open>await axios({...})\<close> of \<open>performSign\<close>: \<open>Inl\<close> is the error caught.\<close>

definition axios_sign ::
  "net \<Rightarrow> jsstring \<Rightarrow> event list \<Rightarrow> ((jsstring \<times> jsstring option) + (nat \<times> json)) \<times> event list" where
  "axios_sign N user tr =
     (case attempt_of N user (length (filter is_request tr)) of
        Response status data \<Rightarrow>
          if validateStatus status then (Inr (status, data), tr @ [Request user])
          else (Inl (status_error N status), tr @ [Request user])
      | Thrown msg code \<Rightarrow> (Inl (msg, code), tr @ [Request user]))"

text \<open>
  \<open>error.code === 'ECONNRESET' || error.code === 'ETIMEDOUT' ||
   error.code === 'ENOTFOUND' || error.message.includes('timeout')\<close>
\<close>

definition retryable :: "jsstring \<Rightarrow> jsstring option \<Rightarrow> bool" where
  "retryable msg code =
     (code = Some (asc ''ECONNRESET'') \<or> code = Some (asc ''ETIMEDOUT'') \<or>
      code = Some (asc ''ENOTFOUND'') \<or> includes_str msg (asc ''timeout''))"

function performSign :: "net \<Rightarrow> jsstring \<Rightarrow> nat \<Rightarrow> event list \<Rightarrow> sign_result \<times> event list" where
  "performSign N user retryCount tr =
     (case axios_sign N user tr of
        (Inr (status, data), tr1) \<Rightarrow> (Answered status data, tr1)
      | (Inl (msg, code), tr1) \<Rightarrow>
          if retryCount < MAX_RETRY \<and> retryable msg code
          then performSign N user (retryCount + 1) (tr1 @ [Sleep RETRY_DELAY])
          else (Failed msg code, tr1))"
  by pat_completeness auto
termination
  by (relation "measure (\<lambda>(N, user, retryCount, tr). MAX_RETRY - retryCount)") auto

declare performSign.simps [simp del]

section \<open>The account list and the run (ybt\_sign.js, cache variant)\<close>

text \<open>
  \<open>String.prototype.trim\<close> strips white space and line terminators from both ends.
\<close>

definition is_space :: "utf16 \<Rightarrow> bool" where
  "is_space c =
     (c \<in> set [0x09, 0x0A, 0x0B, 0x0C, 0x0D, 0x20, 0xA0, 0x1680, 0x2028, 0x2029, 0x202F,
                0x205F, 0x3000, 0xFEFF] \<or> (0x2000 \<le> c \<and> c \<le> 0x200A))"

definition trim :: "jsstring \<Rightarrow> jsstring" where
  "trim s = rev (dropWhile is_space (rev (dropWhile is_space s)))"

text \<open>\<open>s.split(/[\n&]/)\<close>, with \<open>sep\<close> the test for a separator.\<close>

fun split :: "('a \<Rightarrow> bool) \<Rightarrow> 'a list \<Rightarrow> 'a list list" where
  "split sep [] = [[]]"
| "split sep (c # cs) =
     (if sep c then [] # split sep cs
      else (case split sep cs of [] \<Rightarrow> [[c]] | w # ws \<Rightarrow> (c # w) # ws))"

text \<open>\<open>getUserList\<close>, from the value of \<open>process.env.YBT_USERS\<close>.\<close>

definition getUserList :: "jsstring option \<Rightarrow> jsstring list" where
  "getUserList users =
     (case users of
        None \<Rightarrow> []
      | Some us \<Rightarrow>
          if us = [] then []
          else filter (\<lambda>user. 0 < length user)
                 (map trim (split (\<lambda>c. c = 0x0A \<or> c = 0x26) us)))"

record world =
  files :: fs
  trace :: "event list"

text \<open>
  The \<open>for\<close> loop of \<open>main\<close>: one request per account and one outcome pushed on
  \<open>results\<close>, the classified one or, when \<open>processSignResult\<close> throws, the one the
  \<open>catch\<close> builds from \<open>error.message\<close>. The second of delay between two accounts
  is inside the \<open>try\<close>, so a throw skips it. \<open>performSign\<close> catches what it throws.
\<close>

definition msg_process_failed :: jsstring where
  "msg_process_failed = [0x5904, 0x7406, 0x5931, 0x8D25]"

fun sign_each :: "env \<Rightarrow> net \<Rightarrow> jsstring list \<Rightarrow> world \<Rightarrow> outcome list \<times> world" where
  "sign_each E N [] w = ([], w)"
| "sign_each E N (u # us) w =
     (let (signResult, tr1) = performSign N u 0 (trace w);
          (processed, fs1) = processSignResult E u signResult (files w);
          (pushed, tr2) =
            (case processed of
               Inr processedResult \<Rightarrow>
                 (processedResult, if us \<noteq> [] then tr1 @ [Sleep 1000] else tr1)
             | Inl (TypeError error_message) \<Rightarrow>
                 (\<lparr>username = u, success = False, message = msg_process_failed,
                   details = error_message, isFirstSign = False, dataSource = Error\<rparr>, tr1));
          (results, w1) = sign_each E N us \<lparr>files = fs1, trace = tr2\<rparr>
      in (pushed # results, w1))"

text \<open>
  \<open>main\<close> up to the array \<open>results\<close> it hands to \<open>formatNotifyMessage\<close>; \<open>None\<close>
  is the early return on an empty account list.
\<close>

definition main_results ::
  "env \<Rightarrow> net \<Rightarrow> jsstring option \<Rightarrow> world \<Rightarrow> outcome list option \<times> world" where
  "main_results E N ybt_users w =
     (let users = getUserList ybt_users
      in if length users = 0 then (None, w)
         else let w1 = w\<lparr>files := snd (readCache E (files w))\<rparr>;
                  (results, w2) = sign_each E N users w1
              in (Some results, w2))"

text \<open>
  The counters of \<open>formatNotifyMessage\<close> and the overview block it prints first; the
  per-account listing and the footer that follow are not modelled.
\<close>

definition successCount :: "outcome list \<Rightarrow> nat" where
  "successCount results = length (filter success results)"

definition totalCount :: "outcome list \<Rightarrow> nat" where
  "totalCount results = length results"

definition failCount :: "outcome list \<Rightarrow> nat" where
  "failCount results = totalCount results - successCount results"

definition firstSignCount :: "outcome list \<Rightarrow> nat" where
  "firstSignCount results = length (filter isFirstSign results)"

definition cachedCount :: "outcome list \<Rightarrow> nat" where
  "cachedCount results = length (filter (\<lambda>r. dataSource r = Cache) results)"

definition report_header :: jsstring where
  "report_header =
     [0xD83C, 0xDFAF, 0x20, 0x59, 0x42, 0x54, 0x20, 0x81EA, 0x52A8, 0x7B7E, 0x5230, 0x62A5,
      0x544A, 0x0A] @ replicate 30 0x3D @ [0x0A, 0x0A] @
     [0xD83D, 0xDCCA, 0x20, 0x6267, 0x884C, 0x6982, 0x89C8, 0x3A, 0x0A]"

definition formatNotifyMessage_overview :: "outcome list \<Rightarrow> jsstring" where
  "formatNotifyMessage_overview results =
     report_header @
     [0x2022, 0x20, 0x603B, 0x8D26, 0x53F7, 0x6570, 0x3A, 0x20] @
       show_nat (totalCount results) @ [0x20, 0x4E2A, 0x0A] @
     [0x2022, 0x20, 0x7B7E, 0x5230, 0x6210, 0x529F, 0x3A, 0x20] @
       show_nat (successCount results) @ [0x20, 0x4E2A, 0x0A] @
     (if 0 < firstSignCount results
      then [0x2022, 0x20, 0x9996, 0x6B21, 0x7B7E, 0x5230, 0x3A, 0x20] @
           show_nat (firstSignCount results) @ [0x20, 0x4E2A, 0x20, 0xD83C, 0xDD95, 0x0A]
      else []) @
     (if 0 < cachedCount results
      then [0x2022, 0x20, 0x7F13, 0x5B58, 0x6570, 0x636E, 0x3A, 0x20] @
           show_nat (cachedCount results) @ [0x20, 0x4E2A, 0x20, 0xD83D, 0xDCBE, 0x0A]
      else []) @
     (if 0 < failCount results
      then [0x2022, 0x20, 0x7B7E, 0x5230, 0x5931, 0x8D25, 0x3A, 0x20] @
           show_nat (failCount results) @ [0x20, 0x4E2A, 0x0A]
      else []) @
     [0x0A]"

section \<open>Notification fan-out (sendNotify.js)\<close>

text \<open>
  One \<open>axios.post(url, payload, {timeout})\<close>. The channel functions ignore the response:
  only whether the promise resolves (\<open>axios_post\<close> is true) or rejects matters.
  \<open>encodeURIComponent\<close> throws \<open>URIError\<close> on a lone surrogate, which is \<open>None\<close>;
  the HMAC of \<open>crypto\<close> and \<open>Date.now()\<close> are taken from outside as well.
\<close>

record request =
  url :: jsstring
  payload :: json
  timeout :: nat

record notify_env =
  process_env :: "string \<Rightarrow> jsstring option"
  axios_post :: "request \<Rightarrow> bool"
  encodeURIComponent :: "jsstring \<Rightarrow> jsstring option"
  hmac_sha256_base64 :: "jsstring \<Rightarrow> jsstring \<Rightarrow> jsstring"
  date_now :: nat

definition NOTIFY_timeout :: nat where
  "NOTIFY_timeout = 10000"

text \<open>
  A variable of \<open>process.env\<close> as the tests \<open>!X\<close> and \<open>X || Y\<close> see it: unset and
  empty are both falsy.
\<close>

definition getenv :: "notify_env \<Rightarrow> string \<Rightarrow> jsstring option" where
  "getenv N v = (case process_env N v of None \<Rightarrow> None | Some x \<Rightarrow> if x = [] then None else Some x)"

text \<open>
  How an async function settles, with the requests it issued: it resolves to a boolean
  (\<open>Inr\<close>) or rejects with what was thrown (\<open>Inl\<close>).
\<close>

type_synonym settled = "(exn + bool) \<times> request list"

type_synonym notify_func = "notify_env \<Rightarrow> jsstring \<Rightarrow> jsstring \<Rightarrow> settled"

text \<open>
  The body of a channel function after its credential test:
  \<open>try { ...; await axios.post(...); return true } catch (error) { return false }\<close>.
  The request is \<open>None\<close> when building it throws; a rejected post throws as well, and
  either way the \<open>catch\<close> returns false.
\<close>

definition try_post :: "notify_env \<Rightarrow> request option \<Rightarrow> settled" where
  "try_post N built =
     (case built of
        None \<Rightarrow> (Inr False, [])
      | Some r \<Rightarrow> (Inr (axios_post N r), [r]))"

text \<open>\<open>return false\<close> of the credential test.\<close>

definition not_configured :: settled where
  "not_configured = (Inr False, [])"

text \<open>\<open>s.replace(/\n/g, by)\<close>\<close>

definition replace_newlines :: "jsstring \<Rightarrow> jsstring \<Rightarrow> jsstring" where
  "replace_newlines by s = concat (map (\<lambda>c. if c = 0x0A then by else [c]) s)"

definition serverChanNotify :: notify_func where
  "serverChanNotify N title content =
     (case (case getenv N ''PUSH_KEY'' of Some k \<Rightarrow> Some k | None \<Rightarrow> getenv N ''SCKEY'') of
        None \<Rightarrow> not_configured
      | Some SCKEY \<Rightarrow>
          try_post N (Some
            \<lparr>url = (if includes_str SCKEY (asc ''SCT'')
                    then asc ''https://sctapi.ftqq.com/'' @ SCKEY @ asc ''.send''
                    else asc ''https://sc.ftqq.com/'' @ SCKEY @ asc ''.send''),
             payload = JObj [(asc ''title'', JStr title),
                             (asc ''desp'', JStr (replace_newlines [0x0A, 0x0A] content))],
             timeout = NOTIFY_timeout\<rparr>))"

definition telegramNotify :: notify_func where
  "telegramNotify N title content =
     (case getenv N ''TG_BOT_TOKEN'' of
        None \<Rightarrow> not_configured
      | Some TG_BOT_TOKEN \<Rightarrow>
          (case getenv N ''TG_USER_ID'' of
             None \<Rightarrow> not_configured
           | Some TG_USER_ID \<Rightarrow>
               try_post N (Some
                 \<lparr>url = asc ''https://api.telegram.org/bot'' @ TG_BOT_TOKEN @ asc ''/sendMessage'',
                  payload = JObj [(asc ''chat_id'', JStr TG_USER_ID),
                                  (asc ''text'',
                                     JStr ([0xD83D, 0xDCE2, 0x20] @ title @ [0x0A, 0x0A] @ content)),
                                  (asc ''parse_mode'', JStr (asc ''HTML''))],
                  timeout = NOTIFY_timeout\<rparr>)))"

text \<open>\<open>{msgtype: 'text', text: {content: `${title}\n\n${content}`}}\<close>\<close>

definition text_message :: "jsstring \<Rightarrow> jsstring \<Rightarrow> json" where
  "text_message title content =
     JObj [(asc ''msgtype'', JStr (asc ''text'')),
           (asc ''text'', JObj [(asc ''content'', JStr (title @ [0x0A, 0x0A] @ content))])]"

definition dingTalkNotify :: notify_func where
  "dingTalkNotify N title content =
     (case getenv N ''DD_BOT_TOKEN'' of
        None \<Rightarrow> not_configured
      | Some DD_BOT_TOKEN \<Rightarrow>
          (let url0 = asc ''https://oapi.dingtalk.com/robot/send?access_token='' @ DD_BOT_TOKEN
           in case getenv N ''DD_BOT_SECRET'' of
                None \<Rightarrow>
                  try_post N (Some \<lparr>url = url0, payload = text_message title content,
                                    timeout = NOTIFY_timeout\<rparr>)
              | Some DD_BOT_SECRET \<Rightarrow>
                  (let timestamp = show_nat (date_now N);
                       stringToSign = timestamp @ [0x0A] @ DD_BOT_SECRET;
                       sign = hmac_sha256_base64 N DD_BOT_SECRET stringToSign
                   in try_post N
                        (case encodeURIComponent N sign of
                           None \<Rightarrow> None
                         | Some esign \<Rightarrow>
                             Some \<lparr>url = url0 @ asc ''&timestamp='' @ timestamp @
                                         asc ''&sign='' @ esign,
                                   payload = text_message title content,
                                   timeout = NOTIFY_timeout\<rparr>))))"

definition workWechatNotify :: notify_func where
  "workWechatNotify N title content =
     (case getenv N ''WW_BOT_KEY'' of
        None \<Rightarrow> not_configured
      | Some WW_BOT_KEY \<Rightarrow>
          try_post N (Some
            \<lparr>url = asc ''https://qyapi.weixin.qq.com/cgi-bin/webhook/send?key='' @ WW_BOT_KEY,
             payload = text_message title content,
             timeout = NOTIFY_timeout\<rparr>))"

definition barkNotify :: notify_func where
  "barkNotify N title content =
     (case getenv N ''BARK_PUSH'' of
        None \<Rightarrow> not_configured
      | Some BARK_PUSH \<Rightarrow>
          (let url0 = (if starts_with BARK_PUSH (asc ''http'') then BARK_PUSH
                       else asc ''https://api.day.app/'' @ BARK_PUSH)
           in try_post N
                (case encodeURIComponent N title of
                   None \<Rightarrow> None
                 | Some etitle \<Rightarrow>
                     (case encodeURIComponent N content of
                        None \<Rightarrow> None
                      | Some econtent \<Rightarrow>
                          Some \<lparr>url = url0 @ asc ''/'' @ etitle @ asc ''/'' @ econtent,
                                payload = JObj [],
                                timeout = NOTIFY_timeout\<rparr>))))"

definition pushPlusNotify :: notify_func where
  "pushPlusNotify N title content =
     (case getenv N ''PUSH_PLUS_TOKEN'' of
        None \<Rightarrow> not_configured
      | Some PUSH_PLUS_TOKEN \<Rightarrow>
          try_post N (Some
            \<lparr>url = asc ''https://www.pushplus.plus/send'',
             payload = JObj [(asc ''token'', JStr PUSH_PLUS_TOKEN),
                             (asc ''title'', JStr title),
                             (asc ''content'', JStr (replace_newlines (asc ''<br>'') content)),
                             (asc ''template'', JStr (asc ''html''))],
             timeout = NOTIFY_timeout\<rparr>))"

definition feishuNotify :: notify_func where
  "feishuNotify N title content =
     (case getenv N ''FEISHU_BOT_TOKEN'' of
        None \<Rightarrow> not_configured
      | Some FEISHU_BOT_TOKEN \<Rightarrow>
          try_post N (Some
            \<lparr>url = asc ''https://open.feishu.cn/open-apis/bot/v2/hook/'' @ FEISHU_BOT_TOKEN,
             payload = JObj [(asc ''msg_type'', JStr (asc ''text'')),
                             (asc ''content'',
                                JObj [(asc ''text'', JStr (title @ [0x0A, 0x0A] @ content))])],
             timeout = NOTIFY_timeout\<rparr>))"

text \<open>The \<open>func\<close> members of \<open>notifyMethods\<close>; the names only appear in log lines.\<close>

definition notifyMethods :: "notify_func list" where
  "notifyMethods =
     [serverChanNotify, telegramNotify, dingTalkNotify, workWechatNotify, barkNotify,
      pushPlusNotify, feishuNotify]"

definition default_title :: jsstring where
  "default_title = [0x9752, 0x9F99, 0x9762, 0x677F, 0x901A, 0x77E5]"

definition truncation_marker :: jsstring where
  "truncation_marker =
     [0x0A, 0x0A, 0x2E, 0x2E, 0x2E, 0x28, 0x5185, 0x5BB9, 0x8FC7, 0x957F, 0x5DF2, 0x622A,
      0x65AD, 0x29]"

text \<open>
  The callback that \<open>notifyMethods.map\<close> runs on each method:
  \<open>try { const success = await method.func(title, content); results.push(...);
         if (success) successCount++ } catch (error) { results.push({success: false}) }\<close>.
  A method that rejects counts as a failure.
\<close>

definition run_method :: "settled \<Rightarrow> bool \<times> request list" where
  "run_method st =
     (case st of
        (Inr ok, rs) \<Rightarrow> (ok, rs)
      | (Inl thrown, rs) \<Rightarrow> (False, rs))"

text \<open>
  \<open>sendNotify\<close> over a list of methods: the boolean it resolves to and the requests
  issued, in the order in which \<open>map\<close> starts the methods; the number of true outcomes
  is its \<open>successCount\<close>. \<open>Promise.allSettled\<close> waits for every callback.
\<close>

definition sendNotify_with ::
  "notify_func list \<Rightarrow> notify_env \<Rightarrow> jsstring \<Rightarrow> jsstring \<Rightarrow> bool \<times> request list" where
  "sendNotify_with methods N title content =
     (if title = [] \<and> content = [] then (False, [])
      else
        let title1 = (if title \<noteq> [] then title else default_title);
            content1 = (if 4000 < length content
                        then take 4000 content @ truncation_marker else content);
            outcomes = map (\<lambda>func. run_method (func N title1 content1)) methods
        in (0 < length (filter fst outcomes), concat (map snd outcomes)))"

definition sendNotify :: "notify_env \<Rightarrow> jsstring \<Rightarrow> jsstring \<Rightarrow> bool \<times> request list" where
  "sendNotify = sendNotify_with notifyMethods"

section \<open>Notions used to state the properties\<close>

text \<open>The entry the cache file holds under a key, if the file can be read at all.\<close>

definition file_entry :: "fs \<Rightarrow> jsstring \<Rightarrow> json option" where
  "file_entry s k = (case cache_file s of Parsed cache \<Rightarrow> get_prop cache k | _ \<Rightarrow> None)"

text \<open>
  An entry of the file after a call was carried over from the file before it: it is the
  entry that was there under the same key, as it was or as \<open>JSON.stringify\<close> writes it.
\<close>

definition carried_over :: "fs \<Rightarrow> jsstring \<Rightarrow> json \<Rightarrow> bool" where
  "carried_over s k e =
     (case file_entry s k of None \<Rightarrow> False | Some e0 \<Rightarrow> e = e0 \<or> e = written e0)"


text \<open>
  The seven channels, the function that serves each, and when a channel is enabled: when
  the credential variables its function tests are set and not empty.
\<close>

datatype channel = ServerChan | Telegram | DingTalk | WorkWechat | Bark | PushPlus | Feishu


fun channel_func :: "channel \<Rightarrow> notify_func" where
  "channel_func ServerChan = serverChanNotify"
| "channel_func Telegram = telegramNotify"
| "channel_func DingTalk = dingTalkNotify"
| "channel_func WorkWechat = workWechatNotify"
| "channel_func Bark = barkNotify"
| "channel_func PushPlus = pushPlusNotify"
| "channel_func Feishu = feishuNotify"

fun enabled :: "notify_env \<Rightarrow> channel \<Rightarrow> bool" where
  "enabled N ServerChan = (getenv N ''PUSH_KEY'' \<noteq> None \<or> getenv N ''SCKEY'' \<noteq> None)"
| "enabled N Telegram = (getenv N ''TG_BOT_TOKEN'' \<noteq> None \<and> getenv N ''TG_USER_ID'' \<noteq> None)"
| "enabled N DingTalk = (getenv N ''DD_BOT_TOKEN'' \<noteq> None)"
| "enabled N WorkWechat = (getenv N ''WW_BOT_KEY'' \<noteq> None)"
| "enabled N Bark = (getenv N ''BARK_PUSH'' \<noteq> None)"
| "enabled N PushPlus = (getenv N ''PUSH_PLUS_TOKEN'' \<noteq> None)"
| "enabled N Feishu = (getenv N ''FEISHU_BOT_TOKEN'' \<noteq> None)"



text \<open>A settled channel function delivered when it issued a request that was accepted.\<close>

definition delivered :: "notify_env \<Rightarrow> settled \<Rightarrow> bool" where
  "delivered N st = (\<exists>r \<in> set (snd st). axios_post N r)"

subsection \<open>Example inputs\<close>

text \<open>
  A run on 23 January 2025: Alice signed in earlier that day, Bob's entry is of the day
  before. What \<open>JSON.stringify\<close> prints plays no part below, so the example environment
  prints every value as two braces; likewise the identity stands for
  \<open>encodeURIComponent\<close> and the empty string for the HMAC, neither of which the example
  channels reach.
\<close>

definition demo_env :: env where
  "demo_env = \<lparr>today = asc ''2025-01-23'', nowISO = asc ''2025-01-23T00:01:05.000Z'',
                json_stringify = (\<lambda>v. asc ''{}'')\<rparr>"

definition alice :: jsstring where "alice = asc ''alice''"
definition bob :: jsstring where "bob = asc ''bob''"

definition first_data :: json where
  "first_data = JObj [(asc ''sign_status'', JBool True), (asc ''sign_count'', JNum (asc ''10'')),
                      (asc ''get_traffic'', JNum (asc ''50'')), (asc ''total_traffic'', JNum (asc ''500''))]"

definition unsigned_data :: json where
  "unsigned_data = JObj [(asc ''sign_status'', JBool False), (asc ''sign_count'', JNum (asc ''10'')),
                         (asc ''get_traffic'', JNum (asc ''50'')), (asc ''total_traffic'', JNum (asc ''500''))]"

definition already_data :: json where
  "already_data = JObj [(asc ''sign_status'', JBool True), (asc ''sign_count'', JNum (asc ''10''))]"

definition body_of :: "json \<Rightarrow> json" where
  "body_of d = JObj [(asc ''data'', d)]"

definition alice_entry :: json where
  "alice_entry = JObj [(asc ''date'', JStr (asc ''2025-01-23'')), (asc ''sign_count'', JNum (asc ''10'')),
                       (asc ''get_traffic'', JNum (asc ''50'')), (asc ''total_traffic'', JNum (asc ''500'')),
                       (asc ''message'', JStr msg_sign_ok),
                       (asc ''timestamp'', JStr (asc ''2025-01-23T00:01:05.000Z''))]"

definition bob_entry :: json where
  "bob_entry = JObj [(asc ''date'', JStr (asc ''2025-01-22'')), (asc ''sign_count'', JNum (asc ''3'')),
                     (asc ''get_traffic'', JNum (asc ''20'')), (asc ''total_traffic'', JNum (asc ''60'')),
                     (asc ''message'', JStr msg_sign_ok),
                     (asc ''timestamp'', JStr (asc ''2025-01-22T00:01:05.000Z''))]"

definition fs_empty :: fs where
  "fs_empty = \<lparr>cache_file = Missing, writable = True\<rparr>"

definition fs_two :: fs where
  "fs_two = \<lparr>cache_file = Parsed (JObj [(alice, alice_entry), (bob, bob_entry)]), writable = True\<rparr>"

definition fs_stale :: fs where
  "fs_stale = \<lparr>cache_file = Parsed (JObj [(bob, bob_entry)]), writable = True\<rparr>"

text \<open>
  Files that the scripts never write but may find: Alice's entry of the day carrying an
  object with its own \<open>toString\<close> as message; an entry of the day under the key
  \<open>__proto__\<close>; and under that key an object of the day that holds Alice's entry.
\<close>

definition odd_message :: json where
  "odd_message = JObj [(asc ''toString'', JNum (asc ''1''))]"

definition odd_entry :: json where
  "odd_entry = JObj [(asc ''date'', JStr (asc ''2025-01-23'')), (asc ''sign_count'', JNum (asc ''10'')),
                     (asc ''get_traffic'', JNum (asc ''50'')), (asc ''total_traffic'', JNum (asc ''500'')),
                     (asc ''message'', odd_message)]"

definition fs_odd :: fs where
  "fs_odd = \<lparr>cache_file = Parsed (JObj [(alice, odd_entry)]), writable = True\<rparr>"

definition fs_proto :: fs where
  "fs_proto = \<lparr>cache_file = Parsed (JObj [(proto_key, alice_entry)]), writable = True\<rparr>"

definition holder :: json where
  "holder = JObj [(asc ''date'', JStr (asc ''2025-01-23'')), (alice, alice_entry)]"

definition fs_inherit :: fs where
  "fs_inherit = \<lparr>cache_file = Parsed (JObj [(proto_key, holder)]), writable = True\<rparr>"

text \<open>
  A file in which Alice's entry of the day holds the number literal \<open>1e999\<close>, which
  \<open>JSON.parse\<close> reads as \<open>Infinity\<close>, beside Bob's stale entry.
\<close>

definition huge_entry :: json where
  "huge_entry = JObj [(asc ''date'', JStr (asc ''2025-01-23'')), (asc ''sign_count'', JNum (asc ''10'')),
                      (asc ''get_traffic'', JNum (asc ''Infinity'')),
                      (asc ''total_traffic'', JNum (asc ''500''))]"

definition fs_huge :: fs where
  "fs_huge = \<lparr>cache_file = Parsed (JObj [(alice, huge_entry), (bob, bob_entry)]), writable = True\<rparr>"

definition timeout_msg :: jsstring where
  "timeout_msg = asc ''timeout of 12000ms exceeded''"

definition net_flaky :: net where
  "net_flaky = \<lparr>attempt_of = (\<lambda>u i. if i < 2 then Thrown timeout_msg (Some (asc ''ECONNABORTED''))
                                  else Response 200 (body_of first_data)),
                 status_error = (\<lambda>st. (asc ''Request failed'', Some (asc ''ERR_BAD_RESPONSE'')))\<rparr>"

definition net_down :: net where
  "net_down = \<lparr>attempt_of = (\<lambda>u i. Thrown (asc ''connect ETIMEDOUT'') (Some (asc ''ETIMEDOUT''))),
                status_error = (\<lambda>st. (asc ''Request failed'', Some (asc ''ERR_BAD_RESPONSE'')))\<rparr>"

definition net_already :: net where
  "net_already = \<lparr>attempt_of = (\<lambda>u i. Response 400 (body_of already_data)),
                   status_error = (\<lambda>st. (asc ''Request failed'', Some (asc ''ERR_BAD_RESPONSE'')))\<rparr>"

definition world0 :: world where
  "world0 = \<lparr>files = fs_empty, trace = []\<rparr>"

definition notify_two :: notify_env where
  "notify_two =
     \<lparr>process_env = (\<lambda>v. if v = ''WW_BOT_KEY'' then Some (asc ''k1'')
                          else if v = ''FEISHU_BOT_TOKEN'' then Some (asc ''k2'') else None),
      axios_post = (\<lambda>r. starts_with (url r) (asc ''https://open.feishu.cn/'')),
      encodeURIComponent = Some,
      hmac_sha256_base64 = (\<lambda>k m. []),
      date_now = 0\<rparr>"


definition ww_request :: "jsstring \<Rightarrow> jsstring \<Rightarrow> request" where
  "ww_request t c = \<lparr>url = asc ''https://qyapi.weixin.qq.com/cgi-bin/webhook/send?key=k1'',
                      payload = text_message t c, timeout = 10000\<rparr>"

definition feishu_request :: "jsstring \<Rightarrow> jsstring \<Rightarrow> request" where
  "feishu_request t c = \<lparr>url = asc ''https://open.feishu.cn/open-apis/bot/v2/hook/k2'',
                          payload = JObj [(asc ''msg_type'', JStr (asc ''text'')),
                                          (asc ''content'', JObj [(asc ''text'', JStr (t @ [0x0A, 0x0A] @ c))])],
                          timeout = 10000\<rparr>"



definition long_body :: jsstring where
  "long_body = replicate 4001 0x61"

section \<open>The day cache: what a read returns and what it leaves behind\<close>

lemma get_prop_truthy: "get_prop e k = Some v \<Longrightarrow> truthy e"
  by (cases e) (auto simp: get_prop_def)

lemma get_prop_in_keys: "get_prop c k = Some e \<Longrightarrow> k \<in> set (map fst (own_props c))"
  unfolding get_prop_def by (metis map_of_eq_None_iff option.distinct(1) set_map)

lemma obj_set_plain:
  "k \<noteq> proto_key \<Longrightarrow> obj_set ob k v = ob\<lparr>own := AList.update k v (own ob)\<rparr>"
  by (simp add: obj_set_def)

lemma own_set_prototype: "own (set_prototype ob v) = own ob"
  by (cases v) (simp_all add: set_prototype_def)

lemma obj_set_proto_fresh:
  "map_of (own ob) proto_key = None \<Longrightarrow> prototype ob = ObjectPrototype \<Longrightarrow>
   obj_set ob proto_key v = set_prototype ob v"
  by (simp add: obj_set_def)

lemma fold_keep_own:
  assumes "distinct ks"
      and "map_of (own c) proto_key = None"
      and "prototype c = ObjectPrototype \<or> proto_key \<notin> set ks"
  shows "map_of (own (fold (keep_today t cache) ks c)) k =
           (if k \<in> set ks \<and> k \<noteq> proto_key \<and>
               (\<exists>e. get_prop cache k = Some e \<and> truthy e \<and>
                    get_prop e (asc ''date'') = Some (JStr t))
            then get_prop cache k else map_of (own c) k)"
  using assms
proof (induction ks arbitrary: c)
  case Nil
  then show ?case by simp
next
  case (Cons a ks)
  let ?c = "keep_today t cache a c"
  have d: "distinct ks" and an: "a \<notin> set ks" using Cons.prems(1) by auto
  show ?case
  proof (cases "\<exists>e. get_prop cache a = Some e \<and> truthy e \<and>
                     get_prop e (asc ''date'') = Some (JStr t)")
    case False
    then have same: "?c = c" by (auto simp: keep_today_def split: option.splits)
    have p: "prototype c = ObjectPrototype \<or> proto_key \<notin> set ks" using Cons.prems(3) by auto
    show ?thesis
      using Cons.IH [OF d Cons.prems(2) p] False same by auto
  next
    case True
    then obtain e where e: "get_prop cache a = Some e" "truthy e"
        "get_prop e (asc ''date'') = Some (JStr t)" by blast
    have kc: "?c = obj_set c a e" using e by (simp add: keep_today_def)
    show ?thesis
    proof (cases "a = proto_key")
      case True
      have po: "prototype c = ObjectPrototype" using Cons.prems(3) True by auto
      have c': "?c = set_prototype c e"
        using kc True obj_set_proto_fresh [OF Cons.prems(2) po] by simp
      have o: "own ?c = own c" using c' by (simp add: own_set_prototype)
      have q: "map_of (own ?c) proto_key = None" using o Cons.prems(2) by simp
      have p: "prototype ?c = ObjectPrototype \<or> proto_key \<notin> set ks" using an True by simp
      show ?thesis
        using Cons.IH [OF d q p] True an o by auto
    next
      case False
      have c': "?c = c\<lparr>own := AList.update a e (own c)\<rparr>" using kc False by (simp add: obj_set_plain)
      have q: "map_of (own ?c) proto_key = None"
        using c' False Cons.prems(2) by (simp add: update_conv')
      have p: "prototype ?c = ObjectPrototype \<or> proto_key \<notin> set ks"
        using c' Cons.prems(3) by auto
      show ?thesis
        using Cons.IH [OF d q p] c' e an False by (auto simp: update_conv')
    qed
  qed
qed

lemma fold_keep_proto:
  assumes "prototype c = ObjectPrototype"
      and "\<forall>e. get_prop cache proto_key = Some e \<longrightarrow> get_prop e (asc ''date'') \<noteq> Some (JStr t)"
  shows "prototype (fold (keep_today t cache) ks c) = ObjectPrototype"
  using assms(1)
proof (induction ks arbitrary: c)
  case Nil
  then show ?case by simp
next
  case (Cons a ks)
  have "prototype (keep_today t cache a c) = ObjectPrototype"
  proof (cases "a = proto_key")
    case True
    then have "keep_today t cache a c = c"
      using assms(2) by (auto simp: keep_today_def split: option.splits)
    then show ?thesis using Cons.prems by simp
  next
    case False
    then show ?thesis
      using Cons.prems by (auto simp: keep_today_def obj_set_plain split: option.splits)
  qed
  then show ?case using Cons.IH by simp
qed

lemma fold_keep_distinct:
  "distinct (map fst (own c)) \<Longrightarrow> distinct (map fst (own (fold (keep_today t cache) ks c)))"
proof (induction ks arbitrary: c)
  case Nil
  then show ?case by simp
next
  case (Cons a ks)
  have "distinct (map fst (own (keep_today t cache a c)))"
    using Cons.prems
    by (auto simp: keep_today_def obj_set_def own_set_prototype distinct_update
             split: option.splits proto.splits)
  then show ?case using Cons.IH by simp
qed

lemma update_append_new:
  "k \<notin> fst ` set ys \<Longrightarrow> AList.update k v ys = ys @ [(k, v)]"
  by (induction ys) auto

lemma fold_keep_self:
  assumes "distinct (map fst (ys @ zs))"
      and "\<forall>(k, e) \<in> set zs. k \<noteq> proto_key \<and> truthy e \<and> get_prop e (asc ''date'') = Some (JStr t)"
      and "own c = ys"
  shows "own (fold (keep_today t (JObj (ys @ zs))) (map fst zs) c) = ys @ zs"
  using assms
proof (induction zs arbitrary: ys c)
  case Nil
  then show ?case by simp
next
  case (Cons z zs)
  obtain k e where z: "z = (k, e)" by (cases z)
  have d: "distinct (map fst ((ys @ [z]) @ zs))" using Cons.prems(1) by simp
  have f: "\<forall>(k, e) \<in> set zs. k \<noteq> proto_key \<and> truthy e \<and> get_prop e (asc ''date'') = Some (JStr t)"
    using Cons.prems(2) by simp
  have look: "get_prop (JObj (ys @ z # zs)) k = Some e"
    using Cons.prems(1) z by (auto simp: get_prop_def map_add_Some_iff map_of_eq_None_iff image_iff)
  have ok: "k \<noteq> proto_key" "truthy e" "get_prop e (asc ''date'') = Some (JStr t)"
    using Cons.prems(2) z by simp_all
  have notin: "k \<notin> fst ` set ys" using Cons.prems(1) z by auto
  let ?c = "keep_today t (JObj (ys @ z # zs)) k c"
  have step: "own ?c = ys @ [z]"
    using look ok notin z Cons.prems(3)
    by (simp add: keep_today_def obj_set_plain update_append_new)
  have "own (fold (keep_today t (JObj (ys @ z # zs))) (map fst (z # zs)) c)
        = own (fold (keep_today t (JObj ((ys @ [z]) @ zs))) (map fst zs) ?c)"
    using z by simp
  also have "\<dots> = (ys @ [z]) @ zs"
    using Cons.IH [OF d f, of ?c] step by simp
  finally show ?case by simp
qed

lemma empty_obj_simps [simp]:
  "own empty_obj = []" "prototype empty_obj = ObjectPrototype"
  by (simp_all add: empty_obj_def)

lemma object_keys_Inr:
  "c \<noteq> JNull \<Longrightarrow> object_keys c = Inr (remdups (map fst (own_props c)))"
  by (cases c) simp_all

lemma readCache_Parsed:
  assumes "cache_file s = Parsed c" and "c \<noteq> JNull"
  shows "fst (readCache E s) =
           fold (keep_today (today E) c) (remdups (map fst (own_props c))) empty_obj"
  using assms by (simp add: readCache_def object_keys_Inr Let_def)

lemma readCache_else:
  assumes "\<forall>c. cache_file s = Parsed c \<longrightarrow> c = JNull"
  shows "readCache E s = (empty_obj, s)"
  using assms by (cases "cache_file s") (auto simp: readCache_def)

lemma readCache_own_lookup:
  "map_of (own (fst (readCache E s))) k =
     (if k = proto_key then None
      else (case file_entry s k of
              None \<Rightarrow> None
            | Some e \<Rightarrow> if get_prop e (asc ''date'') = Some (JStr (today E)) then Some e else None))"
proof (cases "\<exists>c. cache_file s = Parsed c \<and> c \<noteq> JNull")
  case False
  then have r: "readCache E s = (empty_obj, s)" by (intro readCache_else) auto
  have "file_entry s k = None"
    using False by (cases "cache_file s") (auto simp: file_entry_def get_prop_def)
  then show ?thesis using r by simp
next
  case True
  then obtain c where c: "cache_file s = Parsed c" "c \<noteq> JNull" by blast
  have f: "file_entry s k = get_prop c k" using c by (simp add: file_entry_def)
  have m: "map_of (own (fst (readCache E s))) k =
           (if k \<in> set (remdups (map fst (own_props c))) \<and> k \<noteq> proto_key \<and>
               (\<exists>e. get_prop c k = Some e \<and> truthy e \<and>
                    get_prop e (asc ''date'') = Some (JStr (today E)))
            then get_prop c k else map_of (own empty_obj) k)"
    unfolding readCache_Parsed [OF c]
    by (rule fold_keep_own) simp_all
  show ?thesis
    unfolding m f
    using get_prop_in_keys [of c k] get_prop_truthy
    by (auto split: option.splits)
qed

lemma readCache_dated:
  "map_of (own (fst (readCache E s))) k = Some e \<Longrightarrow>
   get_prop e (asc ''date'') = Some (JStr (today E))"
  by (auto simp: readCache_own_lookup split: option.splits if_splits)

lemma readCache_no_proto_key: "map_of (own (fst (readCache E s))) proto_key = None"
  by (simp add: readCache_own_lookup)

lemma readCache_distinct: "distinct (map fst (own (fst (readCache E s))))"
proof (cases "\<exists>c. cache_file s = Parsed c \<and> c \<noteq> JNull")
  case False
  then have "readCache E s = (empty_obj, s)" by (intro readCache_else) auto
  then show ?thesis by simp
next
  case True
  then obtain c where c: "cache_file s = Parsed c" "c \<noteq> JNull" by blast
  show ?thesis unfolding readCache_Parsed [OF c] by (rule fold_keep_distinct) simp
qed

lemma readCache_prototype:
  assumes "\<forall>c. file_entry s proto_key = Some c \<longrightarrow>
               get_prop c (asc ''date'') \<noteq> Some (JStr (today E))"
  shows "prototype (fst (readCache E s)) = ObjectPrototype"
proof (cases "\<exists>c. cache_file s = Parsed c \<and> c \<noteq> JNull")
  case False
  then have "readCache E s = (empty_obj, s)" by (intro readCache_else) auto
  then show ?thesis by simp
next
  case True
  then obtain c where c: "cache_file s = Parsed c" "c \<noteq> JNull" by blast
  have "\<forall>e. get_prop c proto_key = Some e \<longrightarrow> get_prop e (asc ''date'') \<noteq> Some (JStr (today E))"
    using assms c by (simp add: file_entry_def)
  then show ?thesis
    unfolding readCache_Parsed [OF c] by (intro fold_keep_proto) simp_all
qed

lemma written_JStr: "written v = JStr d \<longleftrightarrow> v = JStr d"
  by (cases v) auto

lemma written_idem: "written (written v) = written v"
  by (induction v rule: written.induct) auto

lemma get_prop_written: "get_prop (written e) k = map_option written (get_prop e k)"
proof (cases e)
  case (JObj kvs)
  then show ?thesis by (simp add: get_prop_def map_of_map)
next
  case (JArr xs)
  have "zip (map show_nat [0..<length xs]) (map written xs) =
        map (\<lambda>(k, v). (k, written v)) (zip (map show_nat [0..<length xs]) xs)"
    by (simp add: zip_map2)
  then show ?thesis using JArr by (simp add: get_prop_def map_of_map)
next
  case (JStr s)
  have "\<forall>v \<in> set (map (\<lambda>c. JStr [c]) s). written v = v" by auto
  then have "\<And>v. get_prop (JStr s) k = Some v \<Longrightarrow> written v = v"
    unfolding get_prop_def by (auto dest!: map_of_SomeD set_zip_rightD)
  then show ?thesis using JStr by (cases "get_prop (JStr s) k") auto
next
  case (JNum n)
  then show ?thesis by (simp add: get_prop_def)
qed (simp_all add: get_prop_def)

lemma written_date:
  "get_prop (written e) k = Some (JStr d) \<longleftrightarrow> get_prop e k = Some (JStr d)"
  by (cases "get_prop e k") (auto simp: get_prop_written written_JStr)

lemma readCache_file:
  "snd (readCache E s) = s \<or>
   snd (readCache E s) = s\<lparr>cache_file := Parsed (written (JObj (own (fst (readCache E s)))))\<rparr>"
  by (auto simp: readCache_def writeCache_def Let_def split: file_content.splits sum.splits)


lemma readCache_unwritable: "\<not> writable s \<Longrightarrow> snd (readCache E s) = s"
  by (auto simp: readCache_def writeCache_def Let_def split: file_content.splits sum.splits)

lemma file_entry_written:
  "file_entry (s\<lparr>cache_file := Parsed (written (JObj kvs))\<rparr>) k = map_option written (map_of kvs k)"
  by (simp add: file_entry_def get_prop_def map_of_map)

lemma file_entry_after_read:
  "file_entry (snd (readCache E s)) k = file_entry s k \<or>
   file_entry (snd (readCache E s)) k = map_option written (map_of (own (fst (readCache E s))) k)"
  using readCache_file [of E s]
        file_entry_written [where s = s and kvs = "own (fst (readCache E s))" and k = k]
  by auto

lemma carried_over_iff:
  "carried_over s k e \<longleftrightarrow> (\<exists>e0. file_entry s k = Some e0 \<and> (e = e0 \<or> e = written e0))"
  by (auto simp: carried_over_def split: option.splits)

lemma readCache_carried:
  "file_entry (snd (readCache E s)) k = Some e \<Longrightarrow> carried_over s k e"
  using file_entry_after_read [of E s k]
  by (auto simp: carried_over_iff readCache_own_lookup split: option.splits if_splits)

lemma readCache_no_new_key:
  "file_entry (snd (readCache E s)) k \<noteq> None \<Longrightarrow> file_entry s k \<noteq> None"
  using readCache_carried [of E s k] by (auto simp: carried_over_iff)

lemma readCache_fresh_all:
  "\<forall>(k, e) \<in> set (own (fst (readCache E s))).
      k \<noteq> proto_key \<and> truthy e \<and> get_prop e (asc ''date'') = Some (JStr (today E))"
proof -
  { fix k e assume "(k, e) \<in> set (own (fst (readCache E s)))"
    then have m: "map_of (own (fst (readCache E s))) k = Some e"
      using readCache_distinct [of E s] by simp
    then have dt: "get_prop e (asc ''date'') = Some (JStr (today E))" by (rule readCache_dated)
    have "k \<noteq> proto_key" using m readCache_no_proto_key [of E s] by auto
    then have "k \<noteq> proto_key \<and> truthy e \<and> get_prop e (asc ''date'') = Some (JStr (today E))"
      using dt get_prop_truthy by blast }
  then show ?thesis by auto
qed

lemma readCache_of_cleaned:
  assumes "distinct (map fst c)"
      and "\<forall>(k, e) \<in> set c. k \<noteq> proto_key \<and> truthy e \<and>
             get_prop e (asc ''date'') = Some (JStr (today E))"
      and "cache_file s = Parsed (JObj c)"
  shows "own (fst (readCache E s)) = c"
proof -
  have "fst (readCache E s) = fold (keep_today (today E) (JObj c)) (map fst c) empty_obj"
    using readCache_Parsed [OF assms(3), of E] assms(1) by (simp add: distinct_remdups_id)
  then show ?thesis
    using fold_keep_self [of "[]" c "today E" empty_obj] assms(1,2) by simp
qed

lemma map_fst_values: "map fst (map (\<lambda>(k, e). (k, f e)) xs) = map fst xs"
  by (induction xs) auto

lemma map_values_fixed:
  "\<forall>(k, e) \<in> set xs. f e = e \<Longrightarrow> map (\<lambda>(k, e). (k, f e)) xs = xs"
  by (induction xs) auto

lemma readCache_twice_own:
  "own (fst (readCache E (snd (readCache E s)))) = own (fst (readCache E s)) \<or>
   own (fst (readCache E (snd (readCache E s)))) =
     map (\<lambda>(k, e). (k, written e)) (own (fst (readCache E s)))"
  using readCache_file [of E s]
proof
  assume "snd (readCache E s) = s"
  then show ?thesis by simp
next
  let ?c = "own (fst (readCache E s))"
  let ?w = "map (\<lambda>(k, e). (k, written e)) ?c"
  assume w: "snd (readCache E s) = s\<lparr>cache_file := Parsed (written (JObj ?c))\<rparr>"
  have f: "cache_file (snd (readCache E s)) = Parsed (JObj ?w)"
    by (subst w) simp
  have d: "distinct (map fst ?w)"
    unfolding map_fst_values by (rule readCache_distinct)
  have fr: "\<forall>(k, e) \<in> set ?w. k \<noteq> proto_key \<and> truthy e \<and>
              get_prop e (asc ''date'') = Some (JStr (today E))"
  proof
    fix x assume "x \<in> set ?w"
    then obtain k e0 where e0: "(k, e0) \<in> set ?c" "x = (k, written e0)" by auto
    have a: "k \<noteq> proto_key \<and> get_prop e0 (asc ''date'') = Some (JStr (today E))"
      using readCache_fresh_all [of E s] e0(1) by auto
    then have b: "get_prop (written e0) (asc ''date'') = Some (JStr (today E))"
      by (simp add: written_date)
    then have "truthy (written e0)" by (rule get_prop_truthy)
    then show "case x of (k, e) \<Rightarrow> k \<noteq> proto_key \<and> truthy e \<and>
              get_prop e (asc ''date'') = Some (JStr (today E))"
      using a b e0(2) by simp
  qed
  have "own (fst (readCache E (snd (readCache E s)))) = ?w"
    using d fr f by (rule readCache_of_cleaned)
  then show ?thesis by simp
qed

lemma readCache_twice_same_own:
  assumes "\<forall>k e. file_entry s k = Some e \<longrightarrow> written e = e"
  shows "own (fst (readCache E (snd (readCache E s)))) = own (fst (readCache E s))"
proof -
  let ?c = "own (fst (readCache E s))"
  have "\<forall>(k, e) \<in> set ?c. written e = e"
  proof -
    { fix k e assume "(k, e) \<in> set ?c"
      then have "map_of ?c k = Some e" using readCache_distinct [of E s] by simp
      then have "file_entry s k = Some e"
        by (auto simp: readCache_own_lookup split: option.splits if_splits)
      then have "written e = e" using assms by blast }
    then show ?thesis by auto
  qed
  then have "map (\<lambda>(k, e). (k, written e)) ?c = ?c"
    by (rule map_values_fixed)
  then show ?thesis using readCache_twice_own [of E s] by auto
qed

lemma readCache_twice_same:
  assumes "\<forall>k e. file_entry s k = Some e \<longrightarrow> written e = e"
      and "\<forall>c. file_entry s proto_key = Some c \<longrightarrow>
               get_prop c (asc ''date'') \<noteq> Some (JStr (today E))"
  shows "fst (readCache E (snd (readCache E s))) = fst (readCache E s)"
proof -
  have "\<forall>c. file_entry (snd (readCache E s)) proto_key = Some c \<longrightarrow>
               get_prop c (asc ''date'') \<noteq> Some (JStr (today E))"
  proof (intro allI impI)
    fix c assume "file_entry (snd (readCache E s)) proto_key = Some c"
    then obtain e0 where e0: "file_entry s proto_key = Some e0" "c = e0 \<or> c = written e0"
      using readCache_carried [of E s proto_key c] by (auto simp: carried_over_iff)
    then show "get_prop c (asc ''date'') \<noteq> Some (JStr (today E))"
      using assms(2) by (auto simp: written_date)
  qed
  then have "prototype (fst (readCache E (snd (readCache E s)))) = ObjectPrototype"
    by (rule readCache_prototype)
  moreover have "prototype (fst (readCache E s)) = ObjectPrototype"
    using assms(2) by (rule readCache_prototype)
  ultimately show ?thesis using readCache_twice_same_own [OF assms(1), of E] by simp
qed

section \<open>Classification: which branch is taken\<close>



lemma getFromCache_snd: "snd (getFromCache E u s) = snd (readCache E s)"
  by (cases "readCache E s") (auto simp: getFromCache_def split: option.splits)











text \<open>The four branches of the classification of an answered response.\<close>

lemma process_no_data:
  "data_data data = None \<Longrightarrow>
   processSignResult E u (Answered status data) s = (Inr (not_found_or_error E u status data), s)"
  by simp

lemma process_first:
  "data_data data = Some signData \<Longrightarrow> first_sign_test status signData \<Longrightarrow>
   processSignResult E u (Answered status data) s =
     (success_outcome u msg_sign_ok (full_details signData msg_sign_ok) True Api,
      saveToCacheIfFirstSign E u signData True s)"
  by (simp add: Let_def)

lemma process_already:
  "data_data data = Some signData \<Longrightarrow> \<not> first_sign_test status signData \<Longrightarrow>
   get_prop signData (asc ''sign_status'') = Some (JBool True) \<Longrightarrow>
   processSignResult E u (Answered status data) s =
     (case fst (getFromCache E u s) of
        Some cachedData \<Rightarrow>
          success_outcome u msg_already (full_details cachedData msg_already) False Cache
      | None \<Rightarrow> success_outcome u msg_already (limited_details signData) False ApiLimited,
      snd (getFromCache E u s))"
  by (cases "getFromCache E u s"; cases "fst (getFromCache E u s)") simp_all

lemma process_other:
  "data_data data = Some signData \<Longrightarrow> \<not> first_sign_test status signData \<Longrightarrow>
   get_prop signData (asc ''sign_status'') \<noteq> Some (JBool True) \<Longrightarrow>
   processSignResult E u (Answered status data) s = (Inr (not_found_or_error E u status data), s)"
  by simp

lemma nfe_fields [simp]:
  "\<not> isFirstSign (not_found_or_error E u st d)"
  "dataSource (not_found_or_error E u st d) = Error"
  "\<not> success (not_found_or_error E u st d)"
  "username (not_found_or_error E u st d) = u"
  by (simp_all add: not_found_or_error_def)

lemma success_outcome_fields:
  assumes "success_outcome u msg det first src = Inr out"
  shows "username out = u" "isFirstSign out = first" "dataSource out = src" "success out"
  using assms by (cases det; auto simp: success_outcome_def)+

declare processSignResult.simps(2) [simp del]

lemma process_cases:
  obtains (no_data) "data_data data = None"
  | (first) signData where "data_data data = Some signData" "first_sign_test status signData"
  | (already) signData where "data_data data = Some signData" "\<not> first_sign_test status signData"
      "get_prop signData (asc ''sign_status'') = Some (JBool True)"
  | (other) signData where "data_data data = Some signData" "\<not> first_sign_test status signData"
      "get_prop signData (asc ''sign_status'') \<noteq> Some (JBool True)"
  by (cases "data_data data") auto




lemma process_unwritable:
  assumes "\<not> writable s"
  shows "snd (processSignResult E u r s) = s"
proof (cases r)
  case (Failed e c)
  then show ?thesis by simp
next
  case (Answered status data)
  show ?thesis
  proof (cases rule: process_cases [where data = data and status = status])
    case no_data
    then show ?thesis using Answered by (simp add: process_no_data)
  next
    case (first signData)
    obtain c s1 where rc: "readCache E s = (c, s1)" by (cases "readCache E s")
    have s1: "s1 = s" using readCache_unwritable [OF assms, of E] rc by simp
    have "saveToCacheIfFirstSign E u signData True s = s"
      using rc s1 assms by (simp add: saveToCacheIfFirstSign_def writeCache_def)
    then show ?thesis using first Answered by (simp add: process_first)
  next
    case (already signData)
    then show ?thesis
      using Answered readCache_unwritable [OF assms, of E]
      by (simp add: process_already getFromCache_snd)
  next
    case (other signData)
    then show ?thesis using Answered by (simp add: process_other)
  qed
qed

section \<open>Retries\<close>

lemma axios_sign_trace: "snd (axios_sign N u tr) = tr @ [Request u]"
  by (simp add: axios_sign_def split: attempt.splits)

lemma performSign_trace:
  "\<exists>evs. snd (performSign N u retryCount tr) = tr @ evs \<and>
         length (filter is_request evs) \<le> Suc (MAX_RETRY - retryCount) \<and>
         (\<forall>ms. Sleep ms \<in> set evs \<longrightarrow> ms = RETRY_DELAY)"
proof (induction N u retryCount tr rule: performSign.induct)
  case (1 N u retryCount tr)
  obtain r tr1 where a: "axios_sign N u tr = (r, tr1)" by (cases "axios_sign N u tr")
  have tr1: "tr1 = tr @ [Request u]" using axios_sign_trace [of N u tr] a by simp
  show ?case
  proof (cases r)
    case (Inr sd)
    obtain st d where "sd = (st, d)" by (cases sd)
    then have "performSign N u retryCount tr = (Answered st d, tr @ [Request u])"
      using a Inr tr1 by (simp add: performSign.simps [of N u retryCount tr])
    then show ?thesis by simp
  next
    case (Inl mc)
    obtain m c where mc: "mc = (m, c)" by (cases mc)
    show ?thesis
    proof (cases "retryCount < MAX_RETRY \<and> retryable m c")
      case False
      then have "performSign N u retryCount tr = (Failed m c, tr @ [Request u])"
        using a Inl mc tr1 by (auto simp: performSign.simps [of N u retryCount tr])
      then show ?thesis by simp
    next
      case True
      have eq: "performSign N u retryCount tr =
                performSign N u (retryCount + 1) (tr1 @ [Sleep RETRY_DELAY])"
        using a Inl mc True by (simp add: performSign.simps [of N u retryCount tr])
      obtain evs where e: "snd (performSign N u (retryCount + 1) (tr1 @ [Sleep RETRY_DELAY]))
                             = (tr1 @ [Sleep RETRY_DELAY]) @ evs"
          "length (filter is_request evs) \<le> Suc (MAX_RETRY - (retryCount + 1))"
          "\<forall>ms. Sleep ms \<in> set evs \<longrightarrow> ms = RETRY_DELAY"
        using "1.IH" [OF a [symmetric] Inl mc [symmetric]] True by blast
      have "snd (performSign N u retryCount tr) = tr @ (Request u # Sleep RETRY_DELAY # evs)"
        using eq e(1) tr1 by simp
      moreover have "length (filter is_request (Request u # Sleep RETRY_DELAY # evs))
                       \<le> Suc (MAX_RETRY - retryCount)"
        using e(2) True by (simp add: Suc_diff_Suc)
      moreover have "\<forall>ms. Sleep ms \<in> set (Request u # Sleep RETRY_DELAY # evs) \<longrightarrow> ms = RETRY_DELAY"
        using e(3) by simp
      ultimately show ?thesis by blast
    qed
  qed
qed

lemma performSign_answered:
  assumes "attempt_of N u (length (filter is_request tr)) = Response st d" and "validateStatus st"
  shows "performSign N u retryCount tr = (Answered st d, tr @ [Request u])"
  using assms by (simp add: performSign.simps [of N u retryCount tr] axios_sign_def)

lemma performSign_retry:
  assumes "attempt_of N u (length (filter is_request tr)) = Thrown m c"
      and "retryable m c" and "retryCount < MAX_RETRY"
  shows "performSign N u retryCount tr =
         performSign N u (Suc retryCount) (tr @ [Request u, Sleep RETRY_DELAY])"
  using assms by (simp add: performSign.simps [of N u retryCount tr] axios_sign_def)

lemma performSign_give_up:
  assumes "attempt_of N u (length (filter is_request tr)) = Thrown m c"
      and "\<not> retryCount < MAX_RETRY \<or> \<not> retryable m c"
  shows "performSign N u retryCount tr = (Failed m c, tr @ [Request u])"
  using assms by (auto simp: performSign.simps [of N u retryCount tr] axios_sign_def)

lemma performSign_retries_then_answered:
  assumes "\<forall>i<n. \<exists>m c. attempt_of N u (length (filter is_request tr) + i) = Thrown m c \<and> retryable m c"
      and "attempt_of N u (length (filter is_request tr) + n) = Response st d"
      and "validateStatus st"
      and "retryCount + n \<le> MAX_RETRY"
  shows "performSign N u retryCount tr =
           (Answered st d, tr @ concat (replicate n [Request u, Sleep RETRY_DELAY]) @ [Request u])"
  using assms
proof (induction n arbitrary: retryCount tr)
  case 0
  then show ?case using performSign_answered [of N u tr st d retryCount] by simp
next
  case (Suc n)
  obtain m c where t: "attempt_of N u (length (filter is_request tr)) = Thrown m c" "retryable m c"
    using Suc.prems(1) by force
  have lt: "retryCount < MAX_RETRY" using Suc.prems(4) by simp
  let ?tr = "tr @ [Request u, Sleep RETRY_DELAY]"
  have k: "length (filter is_request ?tr) = Suc (length (filter is_request tr))" by simp
  have a: "\<forall>i<n. \<exists>m c. attempt_of N u (length (filter is_request ?tr) + i) = Thrown m c \<and> retryable m c"
  proof (intro allI impI)
    fix i assume "i < n"
    then have "Suc i < Suc n" by simp
    then show "\<exists>m c. attempt_of N u (length (filter is_request ?tr) + i) = Thrown m c \<and> retryable m c"
      using Suc.prems(1) by (simp only: k) (metis add_Suc_shift)
  qed
  have b: "attempt_of N u (length (filter is_request ?tr) + n) = Response st d"
    using Suc.prems(2) by (simp only: k) simp
  have c: "Suc retryCount + n \<le> MAX_RETRY" using Suc.prems(4) by simp
  have "performSign N u retryCount tr = performSign N u (Suc retryCount) ?tr"
    by (rule performSign_retry [OF t lt])
  also have "\<dots> = (Answered st d, ?tr @ concat (replicate n [Request u, Sleep RETRY_DELAY]) @ [Request u])"
    by (rule Suc.IH [OF a b Suc.prems(3) c])
  finally show ?case by simp
qed

lemma performSign_retries_then_fails:
  assumes "\<forall>i<n. \<exists>m c. attempt_of N u (length (filter is_request tr) + i) = Thrown m c \<and> retryable m c"
      and "attempt_of N u (length (filter is_request tr) + n) = Thrown m c"
      and "retryCount + n = MAX_RETRY \<or> \<not> retryable m c"
      and "retryCount + n \<le> MAX_RETRY"
  shows "performSign N u retryCount tr =
           (Failed m c, tr @ concat (replicate n [Request u, Sleep RETRY_DELAY]) @ [Request u])"
  using assms
proof (induction n arbitrary: retryCount tr)
  case 0
  then show ?case using performSign_give_up [of N u tr m c retryCount] by auto
next
  case (Suc n)
  obtain m' c' where t: "attempt_of N u (length (filter is_request tr)) = Thrown m' c'" "retryable m' c'"
    using Suc.prems(1) by force
  have lt: "retryCount < MAX_RETRY" using Suc.prems(4) by simp
  let ?tr = "tr @ [Request u, Sleep RETRY_DELAY]"
  have k: "length (filter is_request ?tr) = Suc (length (filter is_request tr))" by simp
  have a: "\<forall>i<n. \<exists>m c. attempt_of N u (length (filter is_request ?tr) + i) = Thrown m c \<and> retryable m c"
  proof (intro allI impI)
    fix i assume "i < n"
    then have "Suc i < Suc n" by simp
    then show "\<exists>m c. attempt_of N u (length (filter is_request ?tr) + i) = Thrown m c \<and> retryable m c"
      using Suc.prems(1) by (simp only: k) (metis add_Suc_shift)
  qed
  have b: "attempt_of N u (length (filter is_request ?tr) + n) = Thrown m c"
    using Suc.prems(2) by (simp only: k) simp
  have c: "Suc retryCount + n = MAX_RETRY \<or> \<not> retryable m c" using Suc.prems(3) by simp
  have d: "Suc retryCount + n \<le> MAX_RETRY" using Suc.prems(4) by simp
  have "performSign N u retryCount tr = performSign N u (Suc retryCount) ?tr"
    by (rule performSign_retry [OF t lt])
  also have "\<dots> = (Failed m c, ?tr @ concat (replicate n [Request u, Sleep RETRY_DELAY]) @ [Request u])"
    by (rule Suc.IH [OF a b c d])
  finally show ?case by simp
qed

section \<open>Fan-out\<close>




lemmas channel_defs = serverChanNotify_def telegramNotify_def dingTalkNotify_def
  workWechatNotify_def barkNotify_def pushPlusNotify_def feishuNotify_def

lemma channel_disabled:
  "\<not> enabled N ch \<Longrightarrow> channel_func ch N t c = (Inr False, [])"
  by (cases ch) (auto simp: channel_defs not_configured_def split: option.splits)

lemma try_post_Some: "try_post N (Some r) = (Inr (axios_post N r), [r])"
  by (simp add: try_post_def)

lemma try_post_None: "try_post N None = (Inr False, [])"
  by (simp add: try_post_def)

lemma try_post_cases:
  "(\<exists>r. try_post N built = (Inr (axios_post N r), [r])) \<or>
   (built = None \<and> try_post N built = (Inr False, []))"
  by (cases built) (simp_all add: try_post_def)

lemma channel_enabled:
  assumes "enabled N ch"
  shows "(\<exists>r. channel_func ch N t c = (Inr (axios_post N r), [r])) \<or>
         ((ch = DingTalk \<or> ch = Bark) \<and> (\<exists>x. encodeURIComponent N x = None) \<and>
          channel_func ch N t c = (Inr False, []))"
proof (cases ch)
  case ServerChan
  then show ?thesis using assms by (auto simp: channel_defs try_post_Some split: option.splits)
next
  case Telegram
  then show ?thesis using assms by (auto simp: channel_defs try_post_Some split: option.splits)
next
  case DingTalk
  obtain tok where tok: "getenv N ''DD_BOT_TOKEN'' = Some tok" using assms DingTalk by auto
  show ?thesis
  proof (cases "getenv N ''DD_BOT_SECRET''")
    case None
    then show ?thesis using DingTalk tok by (simp add: channel_defs try_post_Some Let_def)
  next
    case (Some sec)
    let ?sign = "hmac_sha256_base64 N sec (show_nat (date_now N) @ [0x0A] @ sec)"
    show ?thesis
    proof (cases "encodeURIComponent N ?sign")
      case None
      then have "channel_func ch N t c = (Inr False, [])"
        using DingTalk tok Some by (simp add: channel_defs try_post_None Let_def)
      then show ?thesis using DingTalk None by blast
    next
      case (Some es)
      then show ?thesis
        using DingTalk tok \<open>getenv N ''DD_BOT_SECRET'' = Some sec\<close>
        by (simp add: channel_defs try_post_Some Let_def)
    qed
  qed
next
  case WorkWechat
  then show ?thesis using assms by (auto simp: channel_defs try_post_Some split: option.splits)
next
  case Bark
  obtain key where key: "getenv N ''BARK_PUSH'' = Some key" using assms Bark by auto
  show ?thesis
  proof (cases "encodeURIComponent N t")
    case None
    then have "channel_func ch N t c = (Inr False, [])"
      using Bark key by (simp add: channel_defs try_post_None Let_def)
    then show ?thesis using Bark None by blast
  next
    case (Some et)
    show ?thesis
    proof (cases "encodeURIComponent N c")
      case None
      then have "channel_func ch N t c = (Inr False, [])"
        using Bark key Some by (simp add: channel_defs try_post_None Let_def)
      then show ?thesis using Bark None by blast
    next
      case (Some ec)
      then show ?thesis
        using Bark key \<open>encodeURIComponent N t = Some et\<close>
        by (simp add: channel_defs try_post_Some Let_def)
    qed
  qed
next
  case PushPlus
  then show ?thesis using assms by (auto simp: channel_defs try_post_Some split: option.splits)
next
  case Feishu
  then show ?thesis using assms by (auto simp: channel_defs try_post_Some split: option.splits)
qed

lemma channel_settles:
  "\<exists>ok rs. channel_func ch N t c = (Inr ok, rs) \<and> (ok \<longleftrightarrow> (\<exists>r \<in> set rs. axios_post N r))"
proof (cases "enabled N ch")
  case False
  then have "channel_func ch N t c = (Inr False, [])" by (rule channel_disabled)
  then show ?thesis by (intro exI [of _ False] exI [of _ "[]"]) simp
next
  case True
  then show ?thesis using channel_enabled [of N ch t c] by auto
qed

lemma run_channel:
  "run_method (channel_func ch N t c) =
     (delivered N (channel_func ch N t c), snd (channel_func ch N t c))"
  using channel_settles [of ch N t c] by (auto simp: run_method_def delivered_def)









section \<open>One outcome per account\<close>

lemma process_username:
  assumes "fst (processSignResult E u r s) = Inr out"
  shows "username out = u"
proof (cases r)
  case (Failed e c)
  then show ?thesis using assms by auto
next
  case (Answered status data)
  show ?thesis
  proof (cases rule: process_cases [where data = data and status = status])
    case no_data
    then show ?thesis using assms Answered by (auto simp: process_no_data)
  next
    case (first signData)
    then have "success_outcome u msg_sign_ok (full_details signData msg_sign_ok) True Api = Inr out"
      using assms Answered by (simp add: process_first)
    then show ?thesis by (rule success_outcome_fields(1))
  next
    case (already signData)
    have "fst (processSignResult E u r s) =
        (case fst (getFromCache E u s) of
           Some cachedData \<Rightarrow>
             success_outcome u msg_already (full_details cachedData msg_already) False Cache
         | None \<Rightarrow> success_outcome u msg_already (limited_details signData) False ApiLimited)"
      using already Answered by (simp add: process_already)
    then show ?thesis
      using assms success_outcome_fields(1) by (cases "fst (getFromCache E u s)") fastforce+
  next
    case (other signData)
    then show ?thesis using assms Answered by (auto simp: process_other)
  qed
qed

lemma sign_each_usernames: "map username (fst (sign_each E N us w)) = us"
proof (induction us arbitrary: w)
  case Nil
  then show ?case by simp
next
  case (Cons u us)
  obtain r tr1 where p: "performSign N u 0 (trace w) = (r, tr1)"
    by (cases "performSign N u 0 (trace w)")
  obtain res fs1 where q: "processSignResult E u r (files w) = (res, fs1)"
    by (cases "processSignResult E u r (files w)")
  show ?case
  proof (cases res)
    case (Inr out)
    have un: "username out = u" using process_username [of E u r "files w" out] q Inr by simp
    let ?w = "\<lparr>files = fs1, trace = (if us \<noteq> [] then tr1 @ [Sleep 1000] else tr1)\<rparr>"
    obtain rs w1 where t: "sign_each E N us ?w = (rs, w1)" by (cases "sign_each E N us ?w")
    have "map username rs = us" using Cons.IH [of ?w] t by simp
    then show ?thesis using p q Inr t un by (simp add: Let_def)
  next
    case (Inl ex)
    obtain msg where ex: "ex = TypeError msg" by (cases ex)
    let ?w = "\<lparr>files = fs1, trace = tr1\<rparr>"
    obtain rs w1 where t: "sign_each E N us ?w = (rs, w1)" by (cases "sign_each E N us ?w")
    have "map username rs = us" using Cons.IH [of ?w] t by simp
    then show ?thesis using p q Inl ex t by (simp add: Let_def)
  qed
qed

lemma main_results_usernames:
  assumes "getUserList y \<noteq> []"
  shows "map_option (map username) (fst (main_results E N y w)) = Some (getUserList y)"
proof -
  let ?w1 = "w\<lparr>files := snd (readCache E (files w))\<rparr>"
  obtain rs w2 where t: "sign_each E N (getUserList y) ?w1 = (rs, w2)"
    by (cases "sign_each E N (getUserList y) ?w1")
  have "map username rs = getUserList y" using sign_each_usernames [of E N "getUserList y" ?w1] t by simp
  then show ?thesis using assms t by (simp add: main_results_def Let_def)
qed

lemma main_results_total:
  assumes "getUserList y \<noteq> []"
  shows "map_option totalCount (fst (main_results E N y w)) = Some (length (getUserList y))"
proof -
  obtain rs where r: "fst (main_results E N y w) = Some rs" "map username rs = getUserList y"
    using main_results_usernames [OF assms, of E N w] by (auto simp: map_option_case split: option.splits)
  have "length rs = length (getUserList y)" using r(2) by (metis length_map)
  then show ?thesis using r(1) by (simp add: totalCount_def)
qed

text \<open>A list of blank entries only: \<open>main\<close> returns before any report.\<close>

lemma blank_list_no_report:
  "main_results E N (Some (asc '' & '')) w = (None, w)"
  by (simp add: main_results_def getUserList_def asc_def trim_def is_space_def)

section \<open>Unfolding the examples\<close>

lemmas demo_defs = demo_env_def alice_def bob_def first_data_def unsigned_data_def already_data_def
  body_of_def alice_entry_def bob_entry_def fs_empty_def fs_two_def fs_stale_def
  odd_message_def odd_entry_def fs_odd_def fs_proto_def holder_def fs_inherit_def
  huge_entry_def fs_huge_def

lemmas eval_defs = asc_def get_prop_def data_data_def first_sign_test_def file_entry_def
  readCache_def writeCache_def keep_today_def getFromCache_def saveToCacheIfFirstSign_def
  cache_entry_def not_found_or_error_def Let_def obj_set_def obj_get_def set_prototype_def
  empty_obj_def proto_key_def success_outcome_def full_details_def limited_details_def
  processSignResult.simps(2)


text \<open>
  An already-signed response whose message is an object with its own \<open>toString\<close>:
  without a cache entry the template string throws as well.
\<close>

lemma limited_message_throws:
  "fst (processSignResult demo_env alice
          (Answered 400 (body_of (JObj [(asc ''sign_status'', JBool True),
                                        (asc ''message'', odd_message)]))) fs_empty) =
     Inl cannot_convert"
  by (simp add: demo_defs eval_defs)

text \<open>
  With an object of the day under \<open>__proto__\<close> the first read returns an object that
  inherits from it, and rewrites the file without it; the second read returns a plain
  object. Neither has an own entry.
\<close>

lemma readCache_twice_prototype:
  "prototype (fst (readCache demo_env fs_inherit)) = InheritFrom holder \<and>
   prototype (fst (readCache demo_env (snd (readCache demo_env fs_inherit)))) = ObjectPrototype \<and>
   own (fst (readCache demo_env fs_inherit)) = []"
  by (simp add: demo_defs eval_defs)

section \<open>The properties\<close>

subsection \<open>First sign-in\<close>




subsection \<open>The report's total\<close>

text \<open>
  C2, amended. For every account-list string that leaves at least one entry after
  splitting on newline or \<open>&\<close>, trimming and dropping the blank entries, the run
  produces one outcome per remaining entry, in order, and the total the report prints is
  the number of those entries. Duplicates are not removed: a username listed twice is
  signed in twice and counts twice.
\<close>

theorem total_counts_every_entry:
  assumes "filter (\<lambda>user. 0 < length user) (map trim (split (\<lambda>c. c = 0x0A \<or> c = 0x26) us)) \<noteq> []"
  shows "\<exists>results w1.
           main_results E N (Some us) w = (Some results, w1) \<and>
           totalCount results =
             length (filter (\<lambda>user. 0 < length user) (map trim (split (\<lambda>c. c = 0x0A \<or> c = 0x26) us))) \<and>
           map username results =
             filter (\<lambda>user. 0 < length user) (map trim (split (\<lambda>c. c = 0x0A \<or> c = 0x26) us)) \<and>
           (\<exists>rest. formatNotifyMessage_overview results =
              report_header @ [0x2022, 0x20, 0x603B, 0x8D26, 0x53F7, 0x6570, 0x3A, 0x20] @
              show_nat (totalCount results) @ [0x20, 0x4E2A, 0x0A] @ rest)"
proof -
  let ?l = "filter (\<lambda>user. 0 < length user) (map trim (split (\<lambda>c. c = 0x0A \<or> c = 0x26) us))"
  have ne: "us \<noteq> []" using assms by (auto simp: trim_def)
  have g: "getUserList (Some us) = ?l" using ne by (simp add: getUserList_def)
  then have gne: "getUserList (Some us) \<noteq> []" using assms by simp
  obtain rs where r: "fst (main_results E N (Some us) w) = Some rs" "map username rs = ?l"
    using main_results_usernames [OF gne, of E N w] g
    by (auto simp: map_option_case split: option.splits)
  have len: "totalCount rs = length ?l" using r(2) unfolding totalCount_def by (metis length_map)
  have ov: "\<exists>rest. formatNotifyMessage_overview rs =
              report_header @ [0x2022, 0x20, 0x603B, 0x8D26, 0x53F7, 0x6570, 0x3A, 0x20] @
              show_nat (totalCount rs) @ [0x20, 0x4E2A, 0x0A] @ rest"
    unfolding formatNotifyMessage_overview_def by (intro exI) (rule refl)
  obtain w1 where "main_results E N (Some us) w = (Some rs, w1)"
    using r(1) by (cases "main_results E N (Some us) w") auto
  then show ?thesis using len r(2) ov by blast
qed

text \<open>The amended property on a list with a padded name, an empty entry and a repeated name.\<close>

theorem total_counts_every_entry_witness:
  "filter (\<lambda>user. 0 < length user)
     (map trim (split (\<lambda>c. c = 0x0A \<or> c = 0x26) (asc ''alice& bob &&alice''))) = [alice, bob, alice] \<and>
   (\<exists>results w1.
      main_results demo_env net_already (Some (asc ''alice& bob &&alice'')) world0 = (Some results, w1) \<and>
      totalCount results = 3 \<and> map username results = [alice, bob, alice])"
proof -
  have g: "filter (\<lambda>user. 0 < length user)
     (map trim (split (\<lambda>c. c = 0x0A \<or> c = 0x26) (asc ''alice& bob &&alice''))) = [alice, bob, alice]"
    by (simp add: asc_def trim_def is_space_def alice_def bob_def)
  have ne: "filter (\<lambda>user. 0 < length user)
     (map trim (split (\<lambda>c. c = 0x0A \<or> c = 0x26) (asc ''alice& bob &&alice''))) \<noteq> []"
    using g by simp
  obtain results w1 where
      r: "main_results demo_env net_already (Some (asc ''alice& bob &&alice'')) world0 = (Some results, w1)"
         "totalCount results = length [alice, bob, alice]"
         "map username results = [alice, bob, alice]"
    using total_counts_every_entry [OF ne, of demo_env net_already world0] unfolding g
    by (elim exE conjE) (rule that)
  have t: "totalCount results = 3" using r(2) by simp
  have "\<exists>results w1.
      main_results demo_env net_already (Some (asc ''alice& bob &&alice'')) world0 = (Some results, w1) \<and>
      totalCount results = 3 \<and> map username results = [alice, bob, alice]"
    by (rule exI [of _ results], rule exI [of _ w1]) (intro conjI r(1) t r(3))
  with g show ?thesis by (rule conjI)
qed

text \<open>
  The list \<open>alice&alice\<close> has one distinct name, and the total of its report is two.
\<close>

theorem duplicate_accounts_counted_twice:
  "getUserList (Some (asc ''alice&alice'')) = [alice, alice] \<and>
   length (remdups (getUserList (Some (asc ''alice&alice'')))) = 1 \<and>
   map_option totalCount (fst (main_results demo_env net_already (Some (asc ''alice&alice'')) world0))
     = Some 2"
proof -
  have g: "getUserList (Some (asc ''alice&alice'')) = [alice, alice]"
    by (simp add: getUserList_def asc_def trim_def is_space_def alice_def)
  have ne: "getUserList (Some (asc ''alice&alice'')) \<noteq> []" using g by simp
  have l: "length (getUserList (Some (asc ''alice&alice''))) = 2" by (simp only: g) simp
  have d: "length (remdups (getUserList (Some (asc ''alice&alice'')))) = 1" by (simp only: g) simp
  have t: "map_option totalCount (fst (main_results demo_env net_already (Some (asc ''alice&alice'')) world0))
     = Some 2"
    using main_results_total [OF ne, of demo_env net_already world0] by (simp only: l)
  show ?thesis using g d t by blast
qed

subsection \<open>Retry policy\<close>

text \<open>
  C3. Counting the requests from the one \<open>performSign\<close> issues first, let the first
  \<open>n\<close> of them, \<open>n\<close> at most 3, end in retryable errors. If the next one is answered
  with status 200 or 400, the result is the success result with that status and body;
  if it ends in an error that is not retryable, or is the fourth request, the result is
  the failure result with the message and code of that last error. Either way each
  failed request is followed by one delay of 2000 ms before the next. A response of
  status 400 is returned at once, at any retry count. In every case at most four
  requests are made and every delay is of 2000 ms. An error is retryable when its code
  is \<open>ECONNRESET\<close>, \<open>ETIMEDOUT\<close> or \<open>ENOTFOUND\<close>, or its message contains
  \<open>timeout\<close>.
\<close>

theorem performSign_retry_policy:
  "((\<forall>i<n. \<exists>m c. attempt_of N u (length (filter is_request tr) + i) = Thrown m c \<and> retryable m c) \<and>
    n \<le> 3 \<and>
    attempt_of N u (length (filter is_request tr) + n) = Response st d \<and> validateStatus st
    \<longrightarrow> performSign N u 0 tr =
          (Answered st d, tr @ concat (replicate n [Request u, Sleep 2000]) @ [Request u])) \<and>
   ((\<forall>i<n. \<exists>m c. attempt_of N u (length (filter is_request tr) + i) = Thrown m c \<and> retryable m c) \<and>
    n \<le> 3 \<and>
    attempt_of N u (length (filter is_request tr) + n) = Thrown msg code \<and>
    (n = 3 \<or> \<not> retryable msg code)
    \<longrightarrow> performSign N u 0 tr =
          (Failed msg code, tr @ concat (replicate n [Request u, Sleep 2000]) @ [Request u])) \<and>
   (attempt_of N u (length (filter is_request tr)) = Response 400 body
    \<longrightarrow> performSign N u retryCount tr = (Answered 400 body, tr @ [Request u])) \<and>
   (\<exists>evs. snd (performSign N u 0 tr) = tr @ evs \<and>
          length (filter is_request evs) \<le> 4 \<and>
          (\<forall>ms. Sleep ms \<in> set evs \<longrightarrow> ms = 2000))"
proof -
  let ?k = "length (filter is_request tr)"
  have p1: "performSign N u 0 tr =
          (Answered st d, tr @ concat (replicate n [Request u, Sleep 2000]) @ [Request u])"
    if "\<forall>i<n. \<exists>m c. attempt_of N u (?k + i) = Thrown m c \<and> retryable m c" "n \<le> 3"
       "attempt_of N u (?k + n) = Response st d" "validateStatus st"
    using performSign_retries_then_answered [of n N u tr st d 0] that
    by (simp add: MAX_RETRY_def RETRY_DELAY_def)
  have p2: "performSign N u 0 tr =
          (Failed msg code, tr @ concat (replicate n [Request u, Sleep 2000]) @ [Request u])"
    if "\<forall>i<n. \<exists>m c. attempt_of N u (?k + i) = Thrown m c \<and> retryable m c" "n \<le> 3"
       "attempt_of N u (?k + n) = Thrown msg code" "n = 3 \<or> \<not> retryable msg code"
    using performSign_retries_then_fails [of n N u tr msg code 0] that
    by (simp add: MAX_RETRY_def RETRY_DELAY_def)
  have p3: "performSign N u retryCount tr = (Answered 400 body, tr @ [Request u])"
    if "attempt_of N u ?k = Response 400 body"
    using performSign_answered [OF that] by (simp add: validateStatus_def)
  have p4: "\<exists>evs. snd (performSign N u 0 tr) = tr @ evs \<and>
          length (filter is_request evs) \<le> 4 \<and>
          (\<forall>ms. Sleep ms \<in> set evs \<longrightarrow> ms = 2000)"
    using performSign_trace [of N u 0 tr] by (simp add: MAX_RETRY_def RETRY_DELAY_def)
  show ?thesis using p1 p2 p3 p4 by blast
qed

text \<open>
  The policy on three networks: two timeouts and then a fresh sign-in, a network that
  is down on all four requests, and a service answering 400.
\<close>

theorem performSign_retry_policy_witness:
  "retryable timeout_msg (Some (asc ''ECONNABORTED'')) \<and>
   validateStatus 200 \<and>
   performSign net_flaky alice 0 [] =
     (Answered 200 (body_of first_data),
      [Request alice, Sleep 2000, Request alice, Sleep 2000, Request alice]) \<and>
   retryable (asc ''connect ETIMEDOUT'') (Some (asc ''ETIMEDOUT'')) \<and>
   performSign net_down alice 0 [] =
     (Failed (asc ''connect ETIMEDOUT'') (Some (asc ''ETIMEDOUT'')),
      [Request alice, Sleep 2000, Request alice, Sleep 2000, Request alice, Sleep 2000,
       Request alice]) \<and>
   performSign net_already alice 0 [] = (Answered 400 (body_of already_data), [Request alice])"
proof -
  have r1: "retryable timeout_msg (Some (asc ''ECONNABORTED''))"
    by (simp add: retryable_def timeout_msg_def asc_def)
  have r2: "retryable (asc ''connect ETIMEDOUT'') (Some (asc ''ETIMEDOUT''))"
    by (simp add: retryable_def)
  have v: "validateStatus 200" by (simp add: validateStatus_def)
  have f1: "\<forall>i<2. \<exists>m c. attempt_of net_flaky alice (length (filter is_request []) + i) = Thrown m c \<and>
              retryable m c"
    using r1 by (simp add: net_flaky_def)
  have f2: "\<forall>i<3. \<exists>m c. attempt_of net_down alice (length (filter is_request []) + i) = Thrown m c \<and>
              retryable m c"
    using r2 by (simp add: net_down_def)
  have a: "performSign net_flaky alice 0 [] =
     (Answered 200 (body_of first_data),
      [Request alice, Sleep 2000, Request alice, Sleep 2000, Request alice])"
    using performSign_retry_policy [of 2 net_flaky alice "[]" 200 "body_of first_data" "[]" None JNull 0,
        THEN conjunct1] f1 v
    by (simp add: net_flaky_def numeral_2_eq_2)
  have b: "performSign net_down alice 0 [] =
     (Failed (asc ''connect ETIMEDOUT'') (Some (asc ''ETIMEDOUT'')),
      [Request alice, Sleep 2000, Request alice, Sleep 2000, Request alice, Sleep 2000,
       Request alice])"
    using performSign_retry_policy [of 3 net_down alice "[]" 200 JNull
        "asc ''connect ETIMEDOUT''" "Some (asc ''ETIMEDOUT'')" JNull 0,
        THEN conjunct2, THEN conjunct1] f2
    by (simp add: net_down_def numeral_3_eq_3)
  have c: "performSign net_already alice 0 [] = (Answered 400 (body_of already_data), [Request alice])"
    using performSign_retry_policy [of 0 net_already alice "[]" 200 JNull "[]" None
        "body_of already_data" 0, THEN conjunct2, THEN conjunct2, THEN conjunct1]
    by (simp add: net_already_def)
  show ?thesis using r1 r2 v a b c by simp
qed

subsection \<open>Aggregate result of the fan-out\<close>



subsection \<open>Cached details\<close>




subsection \<open>Details without a cache entry\<close>




subsection \<open>Purge on read\<close>

text \<open>
  C7, amended. Whatever the cache file holds, every entry of the mapping \<open>readCache\<close>
  returns is dated today. A second \<open>readCache\<close> right after the first returns the same
  keys, each with the entry of the first read or, when the first read has rewritten the
  file, with that entry as \<open>JSON.stringify\<close> writes it. When every entry of the file is
  one that \<open>JSON.stringify\<close> writes as it is, that is, holds no number that is not
  finite, the second read returns the same entries as the first. The entries of the
  returned object are its own properties, those that \<open>Object.keys\<close> lists and
  \<open>writeCache\<close> writes.
\<close>

theorem readCache_purge_idempotent:
  "(\<forall>k e. map_of (own (fst (readCache E s))) k = Some e \<longrightarrow>
            get_prop e (asc ''date'') = Some (JStr (today E))) \<and>
   (own (fst (readCache E (snd (readCache E s)))) = own (fst (readCache E s)) \<or>
    own (fst (readCache E (snd (readCache E s)))) =
      map (\<lambda>(k, e). (k, written e)) (own (fst (readCache E s)))) \<and>
   ((\<forall>k e. file_entry s k = Some e \<longrightarrow> written e = e) \<longrightarrow>
    own (fst (readCache E (snd (readCache E s)))) = own (fst (readCache E s)))"
  using readCache_dated [of E s] readCache_twice_own [of E s] readCache_twice_same_own [of s E]
  by blast

text \<open>
  Alice's entry of the day is returned, Bob's stale one is not, twice over.
\<close>

theorem readCache_purge_idempotent_witness:
  "map_of (own (fst (readCache demo_env fs_two))) alice = Some alice_entry \<and>
   get_prop alice_entry (asc ''date'') = Some (JStr (today demo_env)) \<and>
   map_of (own (fst (readCache demo_env fs_two))) bob = None \<and>
   written alice_entry = alice_entry \<and> written bob_entry = bob_entry \<and>
   own (fst (readCache demo_env (snd (readCache demo_env fs_two)))) =
     own (fst (readCache demo_env fs_two))"
proof -
  have a: "map_of (own (fst (readCache demo_env fs_two))) alice = Some alice_entry"
    by (simp add: demo_defs eval_defs)
  have b: "map_of (own (fst (readCache demo_env fs_two))) bob = None"
    by (simp add: demo_defs eval_defs)
  have w: "written alice_entry = alice_entry" "written bob_entry = bob_entry"
    by (simp_all add: demo_defs asc_def msg_sign_ok_def)
  have "file_entry fs_two k = Some e \<longrightarrow> e = alice_entry \<or> e = bob_entry" for k e
    by (simp add: fs_two_def file_entry_def get_prop_def)
  then have h: "\<forall>k e. file_entry fs_two k = Some e \<longrightarrow> written e = e"
    using w by auto
  show ?thesis
    using readCache_purge_idempotent [of demo_env fs_two] a b w h by blast
qed

text \<open>
  Alice's entry of the day holds \<open>Infinity\<close> and Bob's is stale: the first read returns
  Alice's entry as parsed and rewrites the file, and the second read returns it with
  \<open>null\<close> in place of the number.
\<close>

theorem second_read_differs:
  "own (fst (readCache demo_env fs_huge)) = [(alice, huge_entry)] \<and>
   get_prop huge_entry (asc ''get_traffic'') = Some (JNum (asc ''Infinity'')) \<and>
   own (fst (readCache demo_env (snd (readCache demo_env fs_huge)))) =
     [(alice, JObj [(asc ''date'', JStr (asc ''2025-01-23'')), (asc ''sign_count'', JNum (asc ''10'')),
                    (asc ''get_traffic'', JNull), (asc ''total_traffic'', JNum (asc ''500''))])]"
  by (simp add: demo_defs eval_defs)

subsection \<open>Truncation before fan-out\<close>

text \<open>
  C8. For every body of more than 4000 code units, \<open>sendNotify\<close> hands each of the
  seven channel functions the same content: the first 4000 code units followed by the
  marker, 4014 code units in all.
\<close>

theorem sendNotify_truncates_once:
  assumes "4000 < length content"
  shows "sendNotify N title content =
           (let outcomes = map (\<lambda>func. run_method
                                  (func N (if title \<noteq> [] then title else default_title)
                                          (take 4000 content @ truncation_marker)))
                               notifyMethods
            in (0 < length (filter fst outcomes), concat (map snd outcomes))) \<and>
         length (take 4000 content @ truncation_marker) = 4014"
proof -
  have "content \<noteq> []" using assms by auto
  then show ?thesis
    using assms by (simp add: sendNotify_def sendNotify_with_def Let_def truncation_marker_def)
qed

text \<open>
  A body of 4001 code units, with two channels enabled.
\<close>

theorem sendNotify_truncates_once_witness:
  "4000 < length long_body \<and>
   sendNotify notify_two (asc ''YBT'') long_body =
     (True, [ww_request (asc ''YBT'') (take 4000 long_body @ truncation_marker),
             feishu_request (asc ''YBT'') (take 4000 long_body @ truncation_marker)])"
proof -
  have h: "4000 < length long_body" by (simp add: long_body_def)
  have ne: "asc ''YBT'' \<noteq> []" by (simp add: asc_def)
  show ?thesis
    using sendNotify_truncates_once [OF h, of notify_two "asc ''YBT''"] h ne
    by (simp add: notify_two_def ww_request_def feishu_request_def
        notifyMethods_def channel_defs getenv_def try_post_def not_configured_def run_method_def
        NOTIFY_timeout_def Let_def asc_def)
qed

subsection \<open>Where a first sign-in can come from\<close>



subsection \<open>What the purge keeps\<close>

text \<open>
  C10, amended. \<open>readCache\<close> takes no account list. Whatever the cache file holds,
  every entry dated today under a key other than \<open>__proto__\<close> is among the entries of
  the returned mapping unchanged, and is still in the file afterwards: as it was or, when
  the file was rewritten, as \<open>JSON.stringify\<close> writes it, with \<open>null\<close> in place of a
  number that is not finite. What happens to an entry under the key \<open>__proto__\<close> is
  left out.
\<close>

theorem readCache_keeps_today:
  assumes "file_entry s k = Some e"
      and "get_prop e (asc ''date'') = Some (JStr (today E))"
      and "k \<noteq> proto_key"
  shows "map_of (own (fst (readCache E s))) k = Some e \<and>
         (file_entry (snd (readCache E s)) k = Some e \<or>
          file_entry (snd (readCache E s)) k = Some (written e))"
proof -
  have a: "map_of (own (fst (readCache E s))) k = Some e"
    using assms by (simp add: readCache_own_lookup)
  then show ?thesis using file_entry_after_read [of E s k] assms(1) by auto
qed

text \<open>
  Alice's entry is kept although the configured accounts are Bob and Carol.
\<close>

theorem readCache_keeps_today_witness:
  "file_entry fs_two alice = Some alice_entry \<and>
   get_prop alice_entry (asc ''date'') = Some (JStr (today demo_env)) \<and>
   alice \<noteq> proto_key \<and>
   alice \<notin> set (getUserList (Some (asc ''bob&carol''))) \<and>
   map_of (own (fst (readCache demo_env fs_two))) alice = Some alice_entry \<and>
   written alice_entry = alice_entry \<and>
   file_entry (snd (readCache demo_env fs_two)) alice = Some alice_entry \<and>
   file_entry (snd (readCache demo_env fs_two)) bob = None"
proof -
  have h1: "file_entry fs_two alice = Some alice_entry" by (simp add: demo_defs eval_defs)
  have h2: "get_prop alice_entry (asc ''date'') = Some (JStr (today demo_env))"
    by (simp add: demo_defs eval_defs)
  have h3: "alice \<noteq> proto_key" by (simp add: alice_def proto_key_def asc_def)
  have u: "alice \<notin> set (getUserList (Some (asc ''bob&carol'')))"
    by (simp add: getUserList_def asc_def trim_def is_space_def alice_def)
  have w: "written alice_entry = alice_entry"
    by (simp add: demo_defs asc_def msg_sign_ok_def)
  have b: "file_entry (snd (readCache demo_env fs_two)) bob = None"
    by (simp add: demo_defs eval_defs)
  show ?thesis using readCache_keeps_today [OF h1 h2 h3] h1 h2 h3 u w b by auto
qed

text \<open>
  An entry of the day under the key \<open>__proto__\<close>: the assignment in \<open>readCache\<close>
  makes it the prototype of the result instead of a property, the counts of keys differ,
  and the file is rewritten without it.
\<close>

theorem proto_entry_dropped:
  "file_entry fs_proto proto_key = Some alice_entry \<and>
   get_prop alice_entry (asc ''date'') = Some (JStr (today demo_env)) \<and>
   map_of (own (fst (readCache demo_env fs_proto))) proto_key = None \<and>
   file_entry (snd (readCache demo_env fs_proto)) proto_key = None \<and>
   readCache demo_env fs_proto =
     (\<lparr>own = [], prototype = InheritFrom alice_entry\<rparr>,
      \<lparr>cache_file = Parsed (JObj []), writable = True\<rparr>)"
  by (simp add: demo_defs eval_defs)

end
